(* ===== verification/Prelude.thy ===== *)
theory Prelude
  imports Main "HOL-Library.Word"
begin

unbundle bit_operations_syntax

text \<open>
  Shared vocabulary of the development: the machine integers of the Rust side, the exceptions
  both sides raise, and the state-and-exception programs in which every operation is written.
  A program of type \<open>('s, 'a) prog\<close> takes the state and returns a value or an exception
  \<^emph>\<open>together with\<close> the state it leaves behind: Python and Rust keep the effects made before
  an exception is raised, and several properties are about exactly those effects.
\<close>

section \<open>Machine integers\<close>

type_synonym u8 = "8 word"
type_synonym u16 = "16 word"
type_synonym u32 = "32 word"
type_synonym i32 = "32 word"
type_synonym u64 = "64 word"
type_synonym i64 = "64 word"
type_synonym usize = "64 word"

section \<open>Exceptions\<close>

text \<open>
  One constructor per message of a \<open>ValueError\<close> raised under \<^verbatim>\<open>src/\<close>; the formatted ones
  carry the values that are formatted into the text.
\<close>

datatype value_msg =
    RingClosed
  | QueueFull
  | SkipSuccessOwned
  | TimeoutNotSubmitted
  | EntriesZero
  | CantWrite nat nat
  | OffsetOutOfRange nat nat
  | NegativeOffset int
  | HandleClosed int
  | InvalidAddress

text \<open>
  \<open>OSError\<close> carries the \<open>errno\<close> attribute (\<open>None\<close> where only a message is given); its text
  is not modelled. \<open>PanicException\<close> is what a Rust panic becomes in Python.
\<close>

datatype exn =
    ValueError value_msg
  | OSError "int option"
  | NotImplementedError string
  | OverflowError
  | TypeError
  | PanicException
  | WouldBlock
  | BrokenResourceError
  | ClosedResourceError
  | KeyError

section \<open>Programs with state and exceptions\<close>

type_synonym ('s, 'a) prog = "'s \<Rightarrow> (exn + 'a) \<times> 's"

definition ret :: "'a \<Rightarrow> ('s, 'a) prog" where
  "ret x = (\<lambda>s. (Inr x, s))"

definition raise_exn :: "exn \<Rightarrow> ('s, 'a) prog" where
  "raise_exn e = (\<lambda>s. (Inl e, s))"

definition bindP :: "('s, 'a) prog \<Rightarrow> ('a \<Rightarrow> ('s, 'b) prog) \<Rightarrow> ('s, 'b) prog" where
  "bindP m f = (\<lambda>s. case m s of (Inl e, t) \<Rightarrow> (Inl e, t) | (Inr x, t) \<Rightarrow> f x t)"

definition getP :: "('s \<Rightarrow> 'a) \<Rightarrow> ('s, 'a) prog" where
  "getP f = (\<lambda>s. (Inr (f s), s))"

definition modP :: "('s \<Rightarrow> 's) \<Rightarrow> ('s, unit) prog" where
  "modP f = (\<lambda>s. (Inr (), f s))"

definition liftP :: "exn + 'a \<Rightarrow> ('s, 'a) prog" where
  "liftP r = (\<lambda>s. (r, s))"

text \<open>Raise unless the check holds, as the early returns of the code do.\<close>

definition guardP :: "bool \<Rightarrow> exn \<Rightarrow> ('s, unit) prog" where
  "guardP b e = (if b then ret () else raise_exn e)"

lemma ret_app [simp]: "ret x s = (Inr x, s)"
  by (simp add: ret_def)

lemma raise_app [simp]: "raise_exn e s = (Inl e, s)"
  by (simp add: raise_exn_def)

lemma bindP_app: "bindP m f s = (case m s of (Inl e, t) \<Rightarrow> (Inl e, t) | (Inr x, t) \<Rightarrow> f x t)"
  by (simp add: bindP_def)

lemma getP_app [simp]: "getP f s = (Inr (f s), s)"
  by (simp add: getP_def)

lemma modP_app [simp]: "modP f s = (Inr (), f s)"
  by (simp add: modP_def)

lemma liftP_app [simp]: "liftP r s = (r, s)"
  by (simp add: liftP_def)

lemma guardP_app: "guardP b e s = (if b then (Inr (), s) else (Inl e, s))"
  by (simp add: guardP_def)

lemma guardP_True [simp]: "guardP True e s = (Inr (), s)"
  by (simp add: guardP_def)

lemma guardP_False [simp]: "guardP False e s = (Inl e, s)"
  by (simp add: guardP_def)

lemma bindP_Inr: "m s = (Inr x, t) \<Longrightarrow> bindP m f s = f x t"
  by (simp add: bindP_def)

lemma bindP_Inl: "m s = (Inl e, t) \<Longrightarrow> bindP m f s = (Inl e, t)"
  by (simp add: bindP_def)

lemma bindP_ret [simp]: "bindP (ret x) f = f x"
  by (simp add: bindP_def fun_eq_iff)

lemma bindP_assoc: "bindP (bindP m f) g = bindP m (\<lambda>x. bindP (f x) g)"
  by (auto simp: bindP_def fun_eq_iff split: prod.split sum.split)

lemma bindP_InrE:
  assumes "bindP m f s = (Inr y, u)"
  obtains x t where "m s = (Inr x, t)" "f x t = (Inr y, u)"
  using assms by (auto simp: bindP_def split: prod.splits sum.splits)

lemma bindP_InlE:
  assumes "bindP m f s = (Inl e, u)"
  obtains "m s = (Inl e, u)" | x t where "m s = (Inr x, t)" "f x t = (Inl e, u)"
  using assms by (auto simp: bindP_def split: prod.splits sum.splits)

subsection \<open>What every outcome of a program keeps\<close>

text \<open>
  \<open>keeps R m\<close>: whatever \<open>m\<close> returns or raises, its final state is related by \<open>R\<close> to its
  initial one. With a reflexive and transitive \<open>R\<close> the rules below compose it along the
  structure of the program; an invariant \<open>I\<close> is the relation \<open>I s \<longrightarrow> I t\<close>.
\<close>

definition keeps :: "('s \<Rightarrow> 's \<Rightarrow> bool) \<Rightarrow> ('s, 'a) prog \<Rightarrow> bool" where
  "keeps R m \<longleftrightarrow> (\<forall>s. R s (snd (m s)))"

named_theorems keeps_intros

lemma keepsI: "(\<And>s. R s (snd (m s))) \<Longrightarrow> keeps R m"
  by (simp add: keeps_def)

lemma keepsD: "keeps R m \<Longrightarrow> R s (snd (m s))"
  by (simp add: keeps_def)

lemma keeps_ret [keeps_intros]: "reflp R \<Longrightarrow> keeps R (ret x)"
  by (simp add: keeps_def reflpD)

lemma keeps_raise [keeps_intros]: "reflp R \<Longrightarrow> keeps R (raise_exn e)"
  by (simp add: keeps_def reflpD)

lemma keeps_getP [keeps_intros]: "reflp R \<Longrightarrow> keeps R (getP f)"
  by (simp add: keeps_def reflpD)

lemma keeps_liftP [keeps_intros]: "reflp R \<Longrightarrow> keeps R (liftP r)"
  by (simp add: keeps_def reflpD)

lemma keeps_guardP [keeps_intros]: "reflp R \<Longrightarrow> keeps R (guardP b e)"
  by (simp add: keeps_def guardP_def reflpD)

lemma keeps_bindP [keeps_intros]:
  assumes "transp R" "keeps R m" "\<And>x. keeps R (f x)"
  shows "keeps R (bindP m f)"
proof (rule keepsI)
  fix s
  obtain r t where m: "m s = (r, t)" by (cases "m s")
  have st: "R s t" using keepsD [OF assms(2), of s] by (simp add: m)
  show "R s (snd (bindP m f s))"
  proof (cases r)
    case (Inl e)
    with m st show ?thesis by (simp add: bindP_def)
  next
    case (Inr x)
    have "R t (snd (f x t))" using assms(3) by (rule keepsD)
    with assms(1) st have "R s (snd (f x t))" by (blast dest: transpD)
    with m Inr show ?thesis by (simp add: bindP_def)
  qed
qed

lemma keeps_if [keeps_intros]: "keeps R m \<Longrightarrow> keeps R n \<Longrightarrow> keeps R (if b then m else n)"
  by simp

section \<open>Partial maps\<close>

lemma map_restrict_Compl_upd: "m |` (- insert k A) = (m |` (- A))(k := None)"
  by (auto simp: restrict_map_def fun_eq_iff)

lemma ran_upd_subset: "ran (m(k := None)) \<subseteq> ran m"
  by (auto simp: ran_def split: if_splits)

section \<open>Words\<close>

lemma unat_Suc_no_wrap: "unat (n :: u64) < 2 ^ 64 - 1 \<Longrightarrow> unat (n + 1) = Suc (unat n)"
  by (simp add: unat_word_ariths)

lemma small_word_Suc:
  fixes c :: u64
  assumes "c < 2 ^ 63"
  shows "c < c + 1" "c + 1 \<le> 2 ^ 63"
proof -
  have c: "unat c < 2 ^ 63"
    using assms by (simp add: word_less_nat_alt)
  then have "unat (c + 1) = Suc (unat c)"
    by (intro unat_Suc_no_wrap) simp
  with c show "c < c + 1" "c + 1 \<le> 2 ^ 63"
    by (simp_all add: word_less_nat_alt word_le_nat_alt)
qed

end
