(* ===== verification/Enums.thy ===== *)
theory Enums
  imports Prelude
begin

text \<open>
  The enumerations of \<^verbatim>\<open>pysrc/century_ring/enums.py\<close> and their translation to the integer
  flags of \<^verbatim>\<open>open(2)\<close>. The constants of the standard library's \<open>os\<close> and \<open>socket\<close> modules
  are those of Linux on x86-64. Python integers are unbounded, so flags are of type \<^typ>\<open>int\<close>.
\<close>

section \<open>Constants of the \<open>os\<close> and \<open>socket\<close> modules\<close>

definition O_RDONLY :: int where "O_RDONLY = 0"
definition O_WRONLY :: int where "O_WRONLY = 1"
definition O_RDWR :: int where "O_RDWR = 2"
definition O_ACCMODE :: int where "O_ACCMODE = 3"
definition O_CREAT :: int where "O_CREAT = 2 ^ 6"
definition O_EXCL :: int where "O_EXCL = 2 ^ 7"
definition O_TRUNC :: int where "O_TRUNC = 2 ^ 9"
definition O_APPEND :: int where "O_APPEND = 2 ^ 10"
definition O_DIRECT :: int where "O_DIRECT = 2 ^ 14"
definition O_DIRECTORY :: int where "O_DIRECTORY = 2 ^ 16"
definition O_NOFOLLOW :: int where "O_NOFOLLOW = 2 ^ 17"
definition O_NOATIME :: int where "O_NOATIME = 2 ^ 18"
definition O_CLOEXEC :: int where "O_CLOEXEC = 2 ^ 19"
definition O_SYNC :: int where "O_SYNC = 2 ^ 20 OR 2 ^ 12"
definition O_PATH :: int where "O_PATH = 2 ^ 21"
definition O_TMPFILE :: int where "O_TMPFILE = 2 ^ 22 OR 2 ^ 16"

definition SOCK_NONBLOCK :: int where "SOCK_NONBLOCK = 2 ^ 11"
definition SOCK_CLOEXEC :: int where "SOCK_CLOEXEC = 2 ^ 19"
definition EFD_NONBLOCK :: int where "EFD_NONBLOCK = 2 ^ 11"
definition EFD_CLOEXEC :: int where "EFD_CLOEXEC = 2 ^ 19"

lemmas os_flag_defs =
  O_CREAT_def O_EXCL_def O_TRUNC_def O_APPEND_def O_DIRECT_def O_DIRECTORY_def
  O_NOFOLLOW_def O_NOATIME_def O_CLOEXEC_def O_SYNC_def O_PATH_def O_TMPFILE_def

lemmas sock_flag_defs = SOCK_NONBLOCK_def SOCK_CLOEXEC_def

text \<open>All bits of \<open>m\<close> are set in \<open>r\<close>.\<close>

definition has_flags :: "int \<Rightarrow> int \<Rightarrow> bool" where
  "has_flags r m \<longleftrightarrow> r AND m = m"

lemma has_flags_iff: "has_flags r m \<longleftrightarrow> (\<forall>n. bit m n \<longrightarrow> bit r n)"
  unfolding has_flags_def by (auto simp: bit_eq_iff bit_and_iff)

lemma bit_exp_int: "bit ((2 :: int) ^ k) n \<longleftrightarrow> n = k"
  by (auto simp: bit_exp_iff)

lemma bit_os_flags [simp]:
  "bit O_CREAT n \<longleftrightarrow> n = 6"
  "bit O_EXCL n \<longleftrightarrow> n = 7"
  "bit O_TRUNC n \<longleftrightarrow> n = 9"
  "bit O_APPEND n \<longleftrightarrow> n = 10"
  "bit O_DIRECT n \<longleftrightarrow> n = 14"
  "bit O_DIRECTORY n \<longleftrightarrow> n = 16"
  "bit O_NOFOLLOW n \<longleftrightarrow> n = 17"
  "bit O_NOATIME n \<longleftrightarrow> n = 18"
  "bit O_CLOEXEC n \<longleftrightarrow> n = 19"
  "bit O_SYNC n \<longleftrightarrow> n = 20 \<or> n = 12"
  "bit O_PATH n \<longleftrightarrow> n = 21"
  "bit O_TMPFILE n \<longleftrightarrow> n = 22 \<or> n = 16"
  by (simp_all only: os_flag_defs bit_or_iff bit_exp_int)

lemma bit_sock_flags [simp]:
  "bit SOCK_NONBLOCK n \<longleftrightarrow> n = 11"
  "bit SOCK_CLOEXEC n \<longleftrightarrow> n = 19"
  by (simp_all only: sock_flag_defs bit_exp_int)

section \<open>\<open>FileOpenMode\<close> and \<open>FileOpenFlag\<close>\<close>

datatype file_open_mode = READ_ONLY | WRITE_ONLY | READ_WRITE

fun mode_value :: "file_open_mode \<Rightarrow> int" where
  "mode_value READ_ONLY = O_RDONLY"
| "mode_value WRITE_ONLY = O_WRONLY"
| "mode_value READ_WRITE = O_RDWR"

lemma mode_value_range: "mode_value m = 0 \<or> mode_value m = 1 \<or> mode_value m = 2"
  by (cases m) (simp_all add: O_RDONLY_def O_WRONLY_def O_RDWR_def)

datatype file_open_flag =
    APPEND
  | CREATE_IF_NOT_EXISTS
  | MUST_CREATE
  | DIRECT
  | MUST_BE_DIRECTORY
  | PATH
  | NO_ACCESS_TIME
  | NO_FOLLOW
  | TEMPORARY_FILE
  | TRUNCATE

text \<open>The values \<open>enum.auto()\<close> gives the members; they order the members as they are declared.\<close>

fun flag_value :: "file_open_flag \<Rightarrow> int" where
  "flag_value APPEND = 1"
| "flag_value CREATE_IF_NOT_EXISTS = 2"
| "flag_value MUST_CREATE = 3"
| "flag_value DIRECT = 4"
| "flag_value MUST_BE_DIRECTORY = 5"
| "flag_value PATH = 6"
| "flag_value NO_ACCESS_TIME = 7"
| "flag_value NO_FOLLOW = 8"
| "flag_value TEMPORARY_FILE = 9"
| "flag_value TRUNCATE = 10"

lemma flag_value_inject: "flag_value f = flag_value g \<longleftrightarrow> f = g"
  by (cases f; cases g) simp_all

instantiation file_open_flag :: linorder
begin

definition less_eq_file_open_flag :: "file_open_flag \<Rightarrow> file_open_flag \<Rightarrow> bool" where
  "f \<le> g \<longleftrightarrow> flag_value f \<le> flag_value g"

definition less_file_open_flag :: "file_open_flag \<Rightarrow> file_open_flag \<Rightarrow> bool" where
  "f < g \<longleftrightarrow> flag_value f < flag_value g"

instance
  by standard (auto simp: less_eq_file_open_flag_def less_file_open_flag_def flag_value_inject)

end

instance file_open_flag :: finite
proof
  have "(UNIV :: file_open_flag set) \<subseteq> {APPEND, CREATE_IF_NOT_EXISTS, MUST_CREATE, DIRECT,
      MUST_BE_DIRECTORY, PATH, NO_ACCESS_TIME, NO_FOLLOW, TEMPORARY_FILE, TRUNCATE}"
    using file_open_flag.nchotomy by blast
  then show "finite (UNIV :: file_open_flag set)" by (rule finite_subset) simp
qed

section \<open>\<open>enum_flags_to_int_flags\<close>\<close>

text \<open>
  One turn of the loop: the \<open>match\<close> on the member, with \<open>flags\<close> the set built from the
  argument.
\<close>

fun flag_step :: "file_open_flag set \<Rightarrow> int \<Rightarrow> file_open_flag \<Rightarrow> int" where
  "flag_step flags final APPEND = final OR O_APPEND"
| "flag_step flags final CREATE_IF_NOT_EXISTS =
     (if TEMPORARY_FILE \<notin> flags then final OR O_CREAT else final)"
| "flag_step flags final MUST_CREATE =
     (let final = final OR O_EXCL
      in if TEMPORARY_FILE \<notin> flags then final OR O_CREAT else final)"
| "flag_step flags final DIRECT = final OR (O_DIRECT OR O_SYNC)"
| "flag_step flags final MUST_BE_DIRECTORY = final OR O_DIRECTORY"
| "flag_step flags final PATH = final OR O_PATH"
| "flag_step flags final NO_ACCESS_TIME = final OR O_NOATIME"
| "flag_step flags final NO_FOLLOW = final OR O_NOFOLLOW"
| "flag_step flags final TEMPORARY_FILE = final OR O_TMPFILE"
| "flag_step flags final TRUNCATE = final OR O_TRUNC"

text \<open>
  \<open>for flag in flags\<close> over a Python set visits each member once in an order the language does
  not fix; \<open>order\<close> is that order.
\<close>

fun flag_loop :: "file_open_flag set \<Rightarrow> file_open_flag list \<Rightarrow> int \<Rightarrow> int" where
  "flag_loop flags [] final = final"
| "flag_loop flags (flag # order) final = flag_loop flags order (flag_step flags final flag)"

definition enum_flags_to_int_flags :: "file_open_flag list \<Rightarrow> int" where
  "enum_flags_to_int_flags flags = flag_loop (set flags) (remdups flags) O_CLOEXEC"

lemma bit_flag_step:
  "bit (flag_step flags final f) n \<longleftrightarrow> bit final n \<or> bit (flag_step flags 0 f) n"
  by (cases f) (auto simp: Let_def bit_or_iff)

lemma bit_flag_loop:
  "bit (flag_loop flags order final) n \<longleftrightarrow>
     bit final n \<or> (\<exists>f \<in> set order. bit (flag_step flags 0 f) n)"
proof (induction order arbitrary: final)
  case Nil
  then show ?case by simp
next
  case (Cons f fs)
  then show ?case using bit_flag_step [of flags final f n] by auto
qed

lemma Bex_flag_iff:
  "(\<exists>f \<in> S. P f) \<longleftrightarrow>
     (APPEND \<in> S \<and> P APPEND) \<or> (CREATE_IF_NOT_EXISTS \<in> S \<and> P CREATE_IF_NOT_EXISTS) \<or>
     (MUST_CREATE \<in> S \<and> P MUST_CREATE) \<or> (DIRECT \<in> S \<and> P DIRECT) \<or>
     (MUST_BE_DIRECTORY \<in> S \<and> P MUST_BE_DIRECTORY) \<or> (PATH \<in> S \<and> P PATH) \<or>
     (NO_ACCESS_TIME \<in> S \<and> P NO_ACCESS_TIME) \<or> (NO_FOLLOW \<in> S \<and> P NO_FOLLOW) \<or>
     (TEMPORARY_FILE \<in> S \<and> P TEMPORARY_FILE) \<or> (TRUNCATE \<in> S \<and> P TRUNCATE)"
    (is "?l \<longleftrightarrow> ?r")
proof
  assume ?l
  then obtain f where f: "f \<in> S" "P f" by blast
  then show ?r by (cases f) simp_all
next
  assume ?r
  then show ?l by (elim disjE) blast+
qed

text \<open>The bit positions one member sets.\<close>

fun flag_bits :: "file_open_flag set \<Rightarrow> file_open_flag \<Rightarrow> nat set" where
  "flag_bits S APPEND = {10}"
| "flag_bits S CREATE_IF_NOT_EXISTS = (if TEMPORARY_FILE \<in> S then {} else {6})"
| "flag_bits S MUST_CREATE = (if TEMPORARY_FILE \<in> S then {7} else {6, 7})"
| "flag_bits S DIRECT = {12, 14, 20}"
| "flag_bits S MUST_BE_DIRECTORY = {16}"
| "flag_bits S PATH = {21}"
| "flag_bits S NO_ACCESS_TIME = {18}"
| "flag_bits S NO_FOLLOW = {17}"
| "flag_bits S TEMPORARY_FILE = {16, 22}"
| "flag_bits S TRUNCATE = {9}"

lemma bit_flag_step_0: "bit (flag_step S 0 f) n \<longleftrightarrow> n \<in> flag_bits S f"
  by (cases f) (auto simp: Let_def bit_or_iff)

lemma bit_enum_flags:
  "bit (enum_flags_to_int_flags fs) n \<longleftrightarrow> n = 19 \<or> (\<exists>f \<in> set fs. n \<in> flag_bits (set fs) f)"
  by (simp add: enum_flags_to_int_flags_def bit_flag_loop bit_flag_step_0)

lemma flag_bits_range: "n \<in> flag_bits S f \<Longrightarrow> 6 \<le> n \<and> n \<le> 22"
  by (cases f) (auto split: if_splits)

text \<open>The iteration order of the Python set does not matter, nor do repeated members.\<close>

lemma flag_loop_order:
  assumes "set order = set fs"
  shows "flag_loop (set fs) order O_CLOEXEC = enum_flags_to_int_flags fs"
  by (rule bit_eqI) (simp add: enum_flags_to_int_flags_def bit_flag_loop assms)

lemma enum_flags_set_cong:
  "set fs = set gs \<Longrightarrow> enum_flags_to_int_flags fs = enum_flags_to_int_flags gs"
  using flag_loop_order [of fs gs] flag_loop_order [of fs fs] by simp

lemma enum_flags_empty: "enum_flags_to_int_flags [] = O_CLOEXEC"
  by (simp add: enum_flags_to_int_flags_def)

text \<open>The access mode occupies bits the flags never touch.\<close>

lemma bit_enum_flags_range: "bit (enum_flags_to_int_flags fs) n \<Longrightarrow> 6 \<le> n \<and> n \<le> 22"
  by (auto simp: bit_enum_flags dest: flag_bits_range)

section \<open>Properties\<close>

text \<open>C38: the integer flags of \<open>enum_flags_to_int_flags\<close> carry exactly the \<^verbatim>\<open>open(2)\<close> flags
  the members stand for. \<open>O_CLOEXEC\<close> is always set; \<open>O_CREAT\<close> is set for both creating members
  unless a temporary file is asked for (where the kernel would reject it); \<open>O_EXCL\<close> goes with
  \<open>MUST_CREATE\<close>; \<open>DIRECT\<close> sets \<open>O_DIRECT\<close> and \<open>O_SYNC\<close>; \<open>TEMPORARY_FILE\<close> implies \<open>O_DIRECTORY\<close>;
  and the access-mode bits stay free.\<close>

theorem enum_flags_meaning:
  "(has_flags (enum_flags_to_int_flags fs) O_CLOEXEC) \<and>
   (has_flags (enum_flags_to_int_flags fs) O_APPEND \<longleftrightarrow> APPEND \<in> set fs) \<and>
   (has_flags (enum_flags_to_int_flags fs) O_CREAT \<longleftrightarrow>
     TEMPORARY_FILE \<notin> set fs \<and> (CREATE_IF_NOT_EXISTS \<in> set fs \<or> MUST_CREATE \<in> set fs)) \<and>
   (has_flags (enum_flags_to_int_flags fs) O_EXCL \<longleftrightarrow> MUST_CREATE \<in> set fs) \<and>
   (has_flags (enum_flags_to_int_flags fs) O_DIRECT \<longleftrightarrow> DIRECT \<in> set fs) \<and>
   (has_flags (enum_flags_to_int_flags fs) O_SYNC \<longleftrightarrow> DIRECT \<in> set fs) \<and>
   (has_flags (enum_flags_to_int_flags fs) O_DIRECTORY \<longleftrightarrow>
     MUST_BE_DIRECTORY \<in> set fs \<or> TEMPORARY_FILE \<in> set fs) \<and>
   (has_flags (enum_flags_to_int_flags fs) O_PATH \<longleftrightarrow> PATH \<in> set fs) \<and>
   (has_flags (enum_flags_to_int_flags fs) O_NOATIME \<longleftrightarrow> NO_ACCESS_TIME \<in> set fs) \<and>
   (has_flags (enum_flags_to_int_flags fs) O_NOFOLLOW \<longleftrightarrow> NO_FOLLOW \<in> set fs) \<and>
   (has_flags (enum_flags_to_int_flags fs) O_TMPFILE \<longleftrightarrow> TEMPORARY_FILE \<in> set fs) \<and>
   (has_flags (enum_flags_to_int_flags fs) O_TRUNC \<longleftrightarrow> TRUNCATE \<in> set fs) \<and>
   (enum_flags_to_int_flags fs AND O_ACCMODE = 0)"
proof -
  let ?r = "enum_flags_to_int_flags fs"
  have low: "\<not> bit ?r n" if "n < 2" for n
    using that bit_enum_flags_range [of fs n] by auto
  have "bit (?r AND O_ACCMODE) n = False" for n
    using low [of n] bit_mask_iff [of 2 n, where 'a = int]
    by (auto simp: bit_and_iff O_ACCMODE_def mask_eq_exp_minus_1)
  then have "?r AND O_ACCMODE = 0" by (simp add: bit_eq_iff)
  then show ?thesis
    by (intro conjI) (auto simp: has_flags_iff bit_enum_flags Bex_flag_iff)
qed

text \<open>C39: the integer flags depend only on which members are given: whatever order the Python
  set is iterated in, and however often a member is repeated in the argument, the loop ends with
  the same value, the one it has in the order of declaration; so two arguments with the same
  members are interchangeable.\<close>

theorem enum_flags_order_independent:
  assumes "set order = set fs" and "set gs = set fs"
  shows "flag_loop (set gs) order O_CLOEXEC = enum_flags_to_int_flags fs \<and>
    enum_flags_to_int_flags fs = enum_flags_to_int_flags (sorted_list_of_set (set fs))"
proof
  show "flag_loop (set gs) order O_CLOEXEC = enum_flags_to_int_flags fs"
    using flag_loop_order [of order fs] assms by simp
  show "enum_flags_to_int_flags fs = enum_flags_to_int_flags (sorted_list_of_set (set fs))"
    by (rule enum_flags_set_cong) simp
qed

theorem enum_flags_order_independent_witness:
  "flag_loop (set [TRUNCATE, CREATE_IF_NOT_EXISTS, TRUNCATE]) [CREATE_IF_NOT_EXISTS, TRUNCATE]
     O_CLOEXEC = enum_flags_to_int_flags [TRUNCATE, CREATE_IF_NOT_EXISTS]"
  by (rule enum_flags_order_independent [THEN conjunct1]) auto

end
