(* ===== verification/Foreign.thy ===== *)
theory Foreign
  imports Prelude "HOL-Library.Multiset"
begin

text \<open>
  What the program calls and does not contain: the \<^verbatim>\<open>io-uring\<close> crate with the kernel behind
  it, the conversions of \<^verbatim>\<open>pyo3\<close>, the socket addresses of \<^verbatim>\<open>nix\<close>, the kernel version of
  \<^verbatim>\<open>procfs\<close> and the system calls of Python's \<open>os\<close>. None of them is defined here: they are the
  fields of a record \<open>env\<close> that every operation takes as its argument. The predicates
  \<open>flags_laws\<close>, \<open>pyo3_laws\<close> and \<open>uring_laws\<close> name the documented behaviour a
  property relies on; a property that needs one says so in its hypotheses.
\<close>

section \<open>Memory shared with the kernel\<close>

text \<open>
  A heap block is what a \<open>Vec\<close> or a \<open>Box\<close> owns; a pointer in a submission is the number of
  its block. Freed blocks are not in the map.
\<close>

type_synonym block = nat
type_synonym mem = "block \<rightharpoonup> u8 list"

section \<open>Submissions and completions\<close>

text \<open>The \<open>io_uring::opcode\<close> the code asks the probe about.\<close>

datatype opcode =
    CODE_OpenAt | CODE_Read | CODE_Write | CODE_Close | CODE_Socket
  | CODE_Connect | CODE_Send | CODE_Recv

text \<open>
  The arguments the opcode builders are called with. A \<^typ>\<open>block\<close> is a pointer; the
  \<open>Timespec\<close> of a timeout lives on the stack of its caller and is given by its value.
\<close>

datatype sqe_op =
    OpenAt (openat_dirfd: i32) (openat_path: block) (openat_flags: i32) (openat_mode: u32)
  | Read i32 block u32 u64
  | Write i32 block u32 u64
  | Close i32
  | Socket i32 i32 i32
  | Connect i32 block u32
  | Send i32 block u32 i32
  | Recv i32 block u32 i32
  | Timeout u64 u32

record sqe =
  op_of :: sqe_op
  sqe_flag_bits :: u8
  sqe_user_data :: u64

fun op_blocks :: "sqe_op \<Rightarrow> block set" where
  "op_blocks (OpenAt _ b _ _) = {b}"
| "op_blocks (Read _ b _ _) = {b}"
| "op_blocks (Write _ b _ _) = {b}"
| "op_blocks (Close _) = {}"
| "op_blocks (Socket _ _ _) = {}"
| "op_blocks (Connect _ b _) = {b}"
| "op_blocks (Send _ b _ _) = {b}"
| "op_blocks (Recv _ b _ _) = {b}"
| "op_blocks (Timeout _ _) = {}"

definition sqe_blocks :: "sqe \<Rightarrow> block set" where
  "sqe_blocks e = op_blocks (op_of e)"

text \<open>The blocks an operation lets the kernel write to: the targets of reads.\<close>

fun op_writes :: "sqe_op \<Rightarrow> block set" where
  "op_writes (Read _ b _ _) = {b}"
| "op_writes (Recv _ b _ _) = {b}"
| "op_writes _ = {}"

lemma op_writes_subset: "op_writes p \<subseteq> op_blocks p"
  by (cases p) auto

text \<open>
  The memory at the pointer is large enough for what the kernel may touch: the length of the
  operation, or a string up to its terminating NUL.
\<close>

fun op_fits :: "sqe_op \<Rightarrow> u8 list \<Rightarrow> bool" where
  "op_fits (OpenAt _ _ _ _) bs = (0 \<in> set bs)"
| "op_fits (Read _ _ n _) bs = (unat n \<le> length bs)"
| "op_fits (Write _ _ n _) bs = (unat n \<le> length bs)"
| "op_fits (Close _) bs = True"
| "op_fits (Socket _ _ _) bs = True"
| "op_fits (Connect _ _ n) bs = (unat n \<le> length bs)"
| "op_fits (Send _ _ n _) bs = (unat n \<le> length bs)"
| "op_fits (Recv _ _ n _) bs = (unat n \<le> length bs)"
| "op_fits (Timeout _ _) bs = True"

text \<open>An entry of the completion queue (\<open>io_uring::cqueue::Entry\<close>).\<close>

record cqe =
  cqe_user_data :: u64
  cqe_result :: i32

section \<open>The flags of a submission\<close>

text \<open>\<open>io_uring::squeue::Flags\<close>, a \<^verbatim>\<open>bitflags\<close> type, by its bits.\<close>

record flags_api =
  fl_FIXED_FILE :: u8
  fl_IO_DRAIN :: u8
  fl_IO_LINK :: u8
  fl_IO_HARDLINK :: u8
  fl_ASYNC :: u8
  fl_BUFFER_SELECT :: u8
  fl_SKIP_SUCCESS :: u8
  fl_empty :: u8
  fl_union :: "u8 \<Rightarrow> u8 \<Rightarrow> u8"
  fl_contains :: "u8 \<Rightarrow> u8 \<Rightarrow> bool"
  fl_from_bits_truncate :: "u8 \<Rightarrow> u8"

definition all_flags :: "flags_api \<Rightarrow> u8 list" where
  "all_flags F = [fl_FIXED_FILE F, fl_IO_DRAIN F, fl_IO_LINK F, fl_IO_HARDLINK F, fl_ASYNC F,
     fl_BUFFER_SELECT F, fl_SKIP_SUCCESS F]"

text \<open>
  Documented: the constants are different single bits, hence non-zero and pairwise disjoint;
  union is bitwise or; \<open>contains\<close> asks for all bits of its argument; \<open>from_bits_truncate\<close>
  drops the bits that belong to no flag.
\<close>

definition flags_laws :: "flags_api \<Rightarrow> bool" where
  "flags_laws F \<longleftrightarrow>
     0 \<notin> set (all_flags F) \<and>
     sorted_wrt (\<lambda>a b. a AND b = 0) (all_flags F) \<and>
     fl_empty F = 0 \<and>
     (\<forall>a b. fl_union F a b = a OR b) \<and>
     (\<forall>a b. fl_contains F a b \<longleftrightarrow> a AND b = b) \<and>
     (\<forall>a. fl_from_bits_truncate F a = a AND foldr (OR) (all_flags F) 0)"

section \<open>Argument conversion\<close>

text \<open>
  \<^verbatim>\<open>pyo3\<close> converts the arguments of a Rust function before its body runs; a conversion that
  fails raises. \<open>py_bytes\<close> is the conversion to \<open>&[u8]\<close>.
\<close>

datatype pybuf = Bytes "u8 list" | ByteArray "u8 list"

fun buf_bytes :: "pybuf \<Rightarrow> u8 list" where
  "buf_bytes (Bytes bs) = bs"
| "buf_bytes (ByteArray bs) = bs"

record pyo3_api =
  py_i32 :: "int \<Rightarrow> exn + i32"
  py_i64 :: "int \<Rightarrow> exn + i64"
  py_u8 :: "int \<Rightarrow> exn + u8"
  py_u16 :: "int \<Rightarrow> exn + u16"
  py_u32 :: "int \<Rightarrow> exn + u32"
  py_u64 :: "int \<Rightarrow> exn + u64"
  py_usize :: "int \<Rightarrow> exn + usize"
  py_bytes :: "pybuf \<Rightarrow> exn + u8 list"

definition converts_unsigned :: "(int \<Rightarrow> exn + 'w::len word) \<Rightarrow> bool" where
  "converts_unsigned c \<longleftrightarrow>
     (\<forall>n. c n = (if 0 \<le> n \<and> n < 2 ^ LENGTH('w) then Inr (word_of_int n) else Inl OverflowError))"

definition converts_signed :: "(int \<Rightarrow> exn + 'w::len word) \<Rightarrow> bool" where
  "converts_signed c \<longleftrightarrow>
     (\<forall>n. c n = (if - (2 ^ (LENGTH('w) - 1)) \<le> n \<and> n < 2 ^ (LENGTH('w) - 1)
        then Inr (word_of_int n) else Inl OverflowError))"

text \<open>
  Documented: an integer outside the range of the Rust type is an \<open>OverflowError\<close>; \<open>&[u8]\<close>
  is extracted from a \<open>bytes\<close> object and from nothing else.
\<close>

definition pyo3_laws :: "pyo3_api \<Rightarrow> bool" where
  "pyo3_laws P \<longleftrightarrow>
     converts_signed (py_i32 P) \<and> converts_signed (py_i64 P) \<and>
     converts_unsigned (py_u8 P) \<and> converts_unsigned (py_u16 P) \<and>
     converts_unsigned (py_u32 P) \<and> converts_unsigned (py_u64 P) \<and>
     converts_unsigned (py_usize P) \<and>
     (\<forall>bs. py_bytes P (Bytes bs) = Inr bs) \<and>
     (\<forall>bs. py_bytes P (ByteArray bs) = Inl TypeError)"

section \<open>The ring of the \<^verbatim>\<open>io-uring\<close> crate\<close>

text \<open>The builder calls of \<open>create_io_ring\<close>, collected.\<close>

record ring_config =
  cfg_dontfork :: bool
  cfg_submit_all :: bool
  cfg_single_issuer :: bool
  cfg_sqpoll :: "u32 option"
  cfg_cqsize :: "u32 option"
  cfg_entries :: u32

text \<open>
  \<open>'r\<close> is the state of an \<open>io_uring::IoUring\<close> with everything the kernel knows about it. A call
  may change it, and may change the memory the kernel was given pointers to. \<open>Inl\<close> is the
  \<open>errno\<close> of an \<open>io::Error\<close>. \<open>ur_completion\<close> is the view \<open>ring.completion()\<close> opens,
  \<open>ur_advance\<close> the effect of reading it to its end and dropping it.
\<close>

record 'r uring_api =
  ur_push :: "sqe \<Rightarrow> 'r \<Rightarrow> 'r option"
  ur_sq_len :: "'r \<Rightarrow> nat"
  ur_submit :: "'r \<Rightarrow> mem \<Rightarrow> (int + nat) \<times> 'r \<times> mem"
  ur_submit_and_wait :: "nat \<Rightarrow> 'r \<Rightarrow> mem \<Rightarrow> (int + nat) \<times> 'r \<times> mem"
  ur_completion :: "'r \<Rightarrow> mem \<Rightarrow> cqe list \<times> 'r \<times> mem"
  ur_advance :: "cqe list \<Rightarrow> 'r \<Rightarrow> 'r"
  ur_sync :: "'r \<Rightarrow> mem \<Rightarrow> 'r \<times> mem"
  ur_register_eventfd :: "i32 \<Rightarrow> 'r \<Rightarrow> (int + unit) \<times> 'r"
  ur_build :: "ring_config \<Rightarrow> int + 'r"
  ur_feature_nodrop :: "'r \<Rightarrow> bool"
  ur_register_probe :: "'r \<Rightarrow> int + (opcode \<Rightarrow> bool)"

text \<open>The kernel writes only into the blocks in \<open>B\<close>, and never resizes, adds or frees one.\<close>

definition mem_frame :: "block set \<Rightarrow> mem \<Rightarrow> mem \<Rightarrow> bool" where
  "mem_frame B m m' \<longleftrightarrow>
     dom m' = dom m \<and>
     (\<forall>b. b \<notin> B \<longrightarrow> m' b = m b) \<and>
     (\<forall>b bs bs'. m b = Some bs \<longrightarrow> m' b = Some bs' \<longrightarrow> length bs' = length bs)"

definition writes_of :: "sqe multiset \<Rightarrow> block set" where
  "writes_of L = (\<Union>e \<in> set_mset L. op_writes (op_of e))"

text \<open>
  \<open>live r\<close> are the submissions of \<open>r\<close> whose memory the kernel may still use: queued, or
  accepted and not reported back. Documented: a push adds the entry or reports a full queue;
  entering the kernel adds none; a completion that has been read ends the operation with its
  \<open>user_data\<close> (\<open>with_ud\<close>: an operation may stay under that value only where two carried it);
  only the targets of live reads are written to.
\<close>

definition with_ud :: "u64 \<Rightarrow> sqe multiset \<Rightarrow> sqe multiset" where
  "with_ud u L = filter_mset (\<lambda>e. sqe_user_data e = u) L"

text \<open>A call into the kernel.\<close>

definition enter_law :: "('r \<Rightarrow> sqe multiset) \<Rightarrow> 'r \<Rightarrow> mem \<Rightarrow> 'r \<Rightarrow> mem \<Rightarrow> bool" where
  "enter_law live r m r' m' \<longleftrightarrow> live r' \<subseteq># live r \<and> mem_frame (writes_of (live r)) m m'"

definition completion_law ::
  "'r uring_api \<Rightarrow> ('r \<Rightarrow> sqe multiset) \<Rightarrow> 'r \<Rightarrow> mem \<Rightarrow> cqe list \<Rightarrow> 'r \<Rightarrow> mem \<Rightarrow> bool" where
  "completion_law U live r m es r' m' \<longleftrightarrow>
     enter_law live r m r' m' \<and> live (ur_advance U es r') \<subseteq># live r' \<and>
     (\<forall>c \<in> set es. with_ud (cqe_user_data c) (live (ur_advance U es r')) \<noteq> {#} \<longrightarrow>
        2 \<le> size (with_ud (cqe_user_data c) (live r)))"

definition uring_laws :: "'r uring_api \<Rightarrow> ('r \<Rightarrow> sqe multiset) \<Rightarrow> bool" where
  "uring_laws U live \<longleftrightarrow>
     (\<forall>cfg r. ur_build U cfg = Inr r \<longrightarrow> live r = {#}) \<and>
     (\<forall>e r r'. ur_push U e r = Some r' \<longrightarrow> live r' = add_mset e (live r)) \<and>
     (\<forall>r m x r' m'. ur_submit U r m = (x, r', m') \<longrightarrow> enter_law live r m r' m') \<and>
     (\<forall>n r m x r' m'. ur_submit_and_wait U n r m = (x, r', m') \<longrightarrow> enter_law live r m r' m') \<and>
     (\<forall>r m es r' m'. ur_completion U r m = (es, r', m') \<longrightarrow>
        completion_law U live r m es r' m') \<and>
     (\<forall>r m r' m'. ur_sync U r m = (r', m') \<longrightarrow> enter_law live r m r' m') \<and>
     (\<forall>f r x r'. ur_register_eventfd U f r = (x, r') \<longrightarrow> live r' = live r)"

section \<open>The environment\<close>

text \<open>A \<open>std::net::SocketAddr\<close>: the octets or groups of the address and the port.\<close>

datatype socket_addr = SockV4 "u8 list" u16 | SockV6 "u16 list" u16

text \<open>System calls reached through Python's \<open>os\<close>; \<open>'w\<close> is the state of the process's files.\<close>

record 'w os_api =
  os_close :: "int \<Rightarrow> 'w \<Rightarrow> int option \<times> 'w"
  os_eventfd :: "int \<Rightarrow> int \<Rightarrow> 'w \<Rightarrow> (int + int) \<times> 'w"
  os_read :: "int \<Rightarrow> nat \<Rightarrow> 'w \<Rightarrow> (int + u8 list) \<times> 'w"

record ('r, 'w) env =
  env_flags :: flags_api
  env_pyo3 :: pyo3_api
  env_ring :: "'r uring_api"
  env_sockaddr :: "socket_addr \<Rightarrow> u8 list"
  env_kernel_version :: "(nat \<times> nat) option"
  env_os :: "'w os_api"

lemma mem_frame_refl [intro, simp]: "mem_frame B m m"
  by (simp add: mem_frame_def)

lemma mem_frame_SomeD:
  assumes "mem_frame B m m'" "m b = Some bs"
  shows "\<exists>bs'. m' b = Some bs' \<and> length bs' = length bs"
proof -
  have "b \<in> dom m'" using assms by (auto simp: mem_frame_def)
  then obtain bs' where "m' b = Some bs'" by blast
  moreover from this assms have "length bs' = length bs" by (auto simp: mem_frame_def)
  ultimately show ?thesis by blast
qed

lemma mem_frame_trans:
  assumes mn: "mem_frame B m n" and np: "mem_frame C n p" and "C \<subseteq> B"
  shows "mem_frame B m p"
proof -
  have "length cs = length bs" if "m b = Some bs" "p b = Some cs" for b bs cs
    using mem_frame_SomeD [OF mn that(1)] np that(2) unfolding mem_frame_def by fastforce
  moreover have "p b = m b" if "b \<notin> B" for b
    using that mn np \<open>C \<subseteq> B\<close> unfolding mem_frame_def by auto
  moreover have "dom p = dom m"
    using mn np unfolding mem_frame_def by simp
  ultimately show ?thesis unfolding mem_frame_def by blast
qed

lemma writes_of_mono: "L \<subseteq># K \<Longrightarrow> writes_of L \<subseteq> writes_of K"
  unfolding writes_of_def using set_mset_mono by blast

text \<open>The laws one by one, for a crate that satisfies them.\<close>

lemma uring_lawsD:
  assumes "uring_laws U live"
  shows "ur_build U cfg = Inr r \<Longrightarrow> live r = {#}"
    and "ur_push U e r = Some r' \<Longrightarrow> live r' = add_mset e (live r)"
    and "ur_submit U r m = (x, r', m') \<Longrightarrow> enter_law live r m r' m'"
    and "ur_submit_and_wait U n r m = (x, r', m') \<Longrightarrow> enter_law live r m r' m'"
    and "ur_completion U r m = (es, r', m') \<Longrightarrow> completion_law U live r m es r' m'"
    and "ur_sync U r m = (r', m') \<Longrightarrow> enter_law live r m r' m'"
    and "ur_register_eventfd U f r = (y, r') \<Longrightarrow> live r' = live r"
proof -
  note L = assms [unfolded uring_laws_def]
  show "ur_build U cfg = Inr r \<Longrightarrow> live r = {#}"
    using L [THEN conjunct1] by simp
  note L2 = L [THEN conjunct2]
  show "ur_push U e r = Some r' \<Longrightarrow> live r' = add_mset e (live r)"
    using L2 [THEN conjunct1] by simp
  note L3 = L2 [THEN conjunct2]
  show "ur_submit U r m = (x, r', m') \<Longrightarrow> enter_law live r m r' m'"
    using L3 [THEN conjunct1] by simp
  note L4 = L3 [THEN conjunct2]
  show "ur_submit_and_wait U n r m = (x, r', m') \<Longrightarrow> enter_law live r m r' m'"
    using L4 [THEN conjunct1] by simp
  note L5 = L4 [THEN conjunct2]
  show "ur_completion U r m = (es, r', m') \<Longrightarrow> completion_law U live r m es r' m'"
    using L5 [THEN conjunct1] by simp
  note L6 = L5 [THEN conjunct2]
  show "ur_sync U r m = (r', m') \<Longrightarrow> enter_law live r m r' m'"
    using L6 [THEN conjunct1] by simp
  show "ur_register_eventfd U f r = (y, r') \<Longrightarrow> live r' = live r"
    using L6 [THEN conjunct2] by simp
qed

end
