(* ===== verification/Ring_Core.thy ===== *)
theory Ring_Core
  imports Foreign
begin

text \<open>
  \<^verbatim>\<open>src/ring.rs\<close>: the Rust object \<open>TheIoRing\<close>. The state \<open>st\<close> holds the object and the heap its
  vectors and boxes live in; an operation is a program over that state. The completion event of
  Python's view is in here too.
\<close>

section \<open>State\<close>

datatype owned_data =
    OnePath block
  | TwoPaths block block
  | Buffer block
  | SockAddr block

fun owned_blocks :: "owned_data \<Rightarrow> block list" where
  "owned_blocks (OnePath p) = [p]"
| "owned_blocks (TwoPaths p q) = [p, q]"
| "owned_blocks (Buffer b) = [b]"
| "owned_blocks (SockAddr a) = [a]"

record 'r the_io_ring =
  the_io_uring :: "'r option"
  probe :: "opcode \<Rightarrow> bool"
  user_data_counter :: u64
  autosubmit_on :: bool
  owned_data :: "u64 \<rightharpoonup> owned_data"

text \<open>\<open>brk\<close> is the next block the allocator hands out.\<close>

record 'r st =
  ring :: "'r the_io_ring"
  heap :: mem
  brk :: block

record completion_event =
  ev_user_data :: u64
  ev_result :: i32
  ev_buffer :: "u8 list option"

definition should_be_ignored :: "completion_event \<Rightarrow> bool" where
  "should_be_ignored ev \<longleftrightarrow> ev_user_data ev AND push_bit 63 1 \<noteq> 0"

section \<open>Allocation and ownership\<close>

definition alloc :: "u8 list \<Rightarrow> (('r, 'z) st_scheme, block) prog" where
  "alloc bs = (\<lambda>s. (Inr (brk s), s\<lparr>heap := (heap s)(brk s \<mapsto> bs), brk := Suc (brk s)\<rparr>))"

definition free_blocks :: "block list \<Rightarrow> ('r, 'z) st_scheme \<Rightarrow> ('r, 'z) st_scheme" where
  "free_blocks bs s = s\<lparr>heap := heap s |` (- set bs)\<rparr>"

text \<open>A local of type \<open>Vec\<close> or \<open>Box\<close> is dropped when its function returns early.\<close>

definition or_drop :: "block \<Rightarrow> (('r, 'z) st_scheme, 'a) prog \<Rightarrow> (('r, 'z) st_scheme, 'a) prog" where
  "or_drop b m = (\<lambda>s. case m s of
     (Inl e, t) \<Rightarrow> (Inl e, free_blocks [b] t)
   | (Inr x, t) \<Rightarrow> (Inr x, t))"

text \<open>\<open>HashMap::insert\<close> drops the value it replaces.\<close>

definition owned_insert :: "u64 \<Rightarrow> owned_data \<Rightarrow> ('r, 'z) st_scheme \<Rightarrow> ('r, 'z) st_scheme" where
  "owned_insert ud d s =
     (let old = (case owned_data (ring s) ud of None \<Rightarrow> [] | Some o' \<Rightarrow> owned_blocks o')
      in (free_blocks old s)
           \<lparr>ring := (ring s)\<lparr>owned_data := (owned_data (ring s))(ud \<mapsto> d)\<rparr>\<rparr>)"

definition add_owned_path :: "u64 \<Rightarrow> block \<Rightarrow> (('r, 'z) st_scheme, unit) prog" where
  "add_owned_path ud path = modP (owned_insert ud (OnePath path))"

definition add_owned_buffer :: "u64 \<Rightarrow> block \<Rightarrow> (('r, 'z) st_scheme, unit) prog" where
  "add_owned_buffer ud buf = modP (owned_insert ud (Buffer buf))"

definition add_owned_sockaddr :: "u64 \<Rightarrow> block \<Rightarrow> (('r, 'z) st_scheme, unit) prog" where
  "add_owned_sockaddr ud addr = modP (owned_insert ud (SockAddr addr))"

section \<open>Submitting\<close>

text \<open>
  The loop of \<open>autosubmit\<close> on the open ring. The guard arm of the \<open>match\<close> returns when a submit
  has been tried or is not allowed, so the loop goes round at most twice.
\<close>

function autosubmit_loop ::
  "'r uring_api \<Rightarrow> sqe \<Rightarrow> bool \<Rightarrow> bool \<Rightarrow> 'r \<Rightarrow> mem \<Rightarrow> (exn + unit) \<times> 'r \<times> mem" where
  "autosubmit_loop U entry auto needs_submit r m =
     (case (if needs_submit then ur_submit U r m else (Inr 0, r, m)) of
        (Inl err, r', m') \<Rightarrow> (Inl (OSError (Some err)), r', m')
      | (Inr _, r', m') \<Rightarrow>
          (case ur_push U entry r' of
             Some r'' \<Rightarrow> (Inr (), r'', m')
           | None \<Rightarrow>
               (if needs_submit \<or> \<not> auto then (Inl (ValueError QueueFull), r', m')
                else autosubmit_loop U entry auto True r' m')))"
  by pat_completeness auto
termination
  by (relation "measure (\<lambda>(U, entry, auto, needs_submit, r, m). if needs_submit then 0 else 1)") auto

declare autosubmit_loop.simps [simp del]

definition autosubmit :: "('r, 'w) env \<Rightarrow> sqe \<Rightarrow> (('r, 'z) st_scheme, unit) prog" where
  "autosubmit E entry = (\<lambda>s. case the_io_uring (ring s) of
     None \<Rightarrow> (Inl (ValueError RingClosed), s)
   | Some r \<Rightarrow>
       (case autosubmit_loop (env_ring E) entry (autosubmit_on (ring s)) False r (heap s) of
          (x, r', m') \<Rightarrow> (x, s\<lparr>ring := (ring s)\<lparr>the_io_uring := Some r'\<rparr>, heap := m'\<rparr>)))"

definition get_next_user_data :: "(('r, 'z) st_scheme, u64) prog" where
  "get_next_user_data = (\<lambda>s.
     (Inr (user_data_counter (ring s)),
      s\<lparr>ring := (ring s)\<lparr>user_data_counter := user_data_counter (ring s) + 1\<rparr>\<rparr>))"

definition submit :: "('r, 'w) env \<Rightarrow> (('r, 'z) st_scheme, nat) prog" where
  "submit E = (\<lambda>s. case the_io_uring (ring s) of
     None \<Rightarrow> (Inl (ValueError RingClosed), s)
   | Some r \<Rightarrow>
       (case ur_submit (env_ring E) r (heap s) of
          (x, r', m') \<Rightarrow>
            ((case x of Inl err \<Rightarrow> Inl (OSError (Some err)) | Inr n \<Rightarrow> Inr n),
             s\<lparr>ring := (ring s)\<lparr>the_io_uring := Some r'\<rparr>, heap := m'\<rparr>)))"

definition wait_cqes :: "('r, 'w) env \<Rightarrow> usize \<Rightarrow> (('r, 'z) st_scheme, nat) prog" where
  "wait_cqes E want = (\<lambda>s. case the_io_uring (ring s) of
     None \<Rightarrow> (Inl (ValueError RingClosed), s)
   | Some r \<Rightarrow>
       (case ur_submit_and_wait (env_ring E) (unat want) r (heap s) of
          (x, r', m') \<Rightarrow>
            ((case x of Inl err \<Rightarrow> Inl (OSError (Some err)) | Inr n \<Rightarrow> Inr n),
             s\<lparr>ring := (ring s)\<lparr>the_io_uring := Some r'\<rparr>, heap := m'\<rparr>)))"

text \<open>The \<open>user_data\<close> of the internal timeout operation.\<close>

definition timeout_user_data :: u64 where
  "timeout_user_data = 0xFFFFFFFFFFFFFF00"

definition timeout_sqe :: "('r, 'w) env \<Rightarrow> u64 \<Rightarrow> u32 \<Rightarrow> sqe" where
  "timeout_sqe E sec nsec =
     \<lparr>op_of = Timeout sec nsec, sqe_flag_bits = fl_SKIP_SUCCESS (env_flags E),
      sqe_user_data = timeout_user_data\<rparr>"

text \<open>Push one entry without the automatic submit.\<close>

definition push_timeout :: "('r, 'w) env \<Rightarrow> sqe \<Rightarrow> (('r, 'z) st_scheme, unit) prog" where
  "push_timeout E entry = (\<lambda>s. case the_io_uring (ring s) of
     None \<Rightarrow> (Inl (ValueError RingClosed), s)
   | Some r \<Rightarrow>
       (case ur_push (env_ring E) entry r of
          None \<Rightarrow> (Inl (ValueError TimeoutNotSubmitted), s)
        | Some r' \<Rightarrow> (Inr (), s\<lparr>ring := (ring s)\<lparr>the_io_uring := Some r'\<rparr>\<rparr>)))"

definition wait_with_timeout :: "('r, 'w) env \<Rightarrow> u64 \<Rightarrow> u32 \<Rightarrow> (('r, 'z) st_scheme, nat) prog" where
  "wait_with_timeout E sec nsec =
     bindP (submit E) (\<lambda>count.
     bindP (push_timeout E (timeout_sqe E sec nsec)) (\<lambda>_.
     bindP (wait_cqes E 1) (\<lambda>_. ret count)))"

definition pending_sq_entries :: "('r, 'w) env \<Rightarrow> (('r, 'z) st_scheme, nat) prog" where
  "pending_sq_entries E = (\<lambda>s. case the_io_uring (ring s) of
     None \<Rightarrow> (Inl (ValueError RingClosed), s)
   | Some r \<Rightarrow> (Inr (ur_sq_len (env_ring E) r), s))"

section \<open>Reaping completions\<close>

text \<open>
  The loop that empties the completion queue. Nothing in the code bounds it: the kernel may post
  as fast as it is read, so not returning is the value \<^term>\<open>None\<close>.
\<close>

partial_function (option) drain ::
  "'r uring_api \<Rightarrow> 'r \<Rightarrow> mem \<Rightarrow> cqe list \<Rightarrow> (cqe list \<times> 'r \<times> mem) option" where
  "drain U r m entries =
     (case ur_completion U r m of (es, r', m') \<Rightarrow>
        if es = [] then Some (entries, r', m')
        else (case ur_sync U (ur_advance U es r') m' of (r'', m'') \<Rightarrow>
                drain U r'' m'' (entries @ es)))"

declare drain.simps [code]

text \<open>\<open>Vec::resize\<close> with zeros.\<close>

definition vec_resize :: "u8 list \<Rightarrow> nat \<Rightarrow> u8 list" where
  "vec_resize buf n = take n buf @ replicate (n - length buf) 0"

definition finish_buffer :: "i32 \<Rightarrow> u8 list \<Rightarrow> u8 list" where
  "finish_buffer result buf =
     (if sint result < 0 \<or> length buf = nat (sint result) then buf
      else vec_resize buf (nat (sint result)))"

text \<open>
  One turn of the loop over the entries: the owned value leaves the table, a buffer moves into
  the event with the bytes it has now, anything else is dropped. (Owned blocks are always
  allocated, see \<open>mem_ok\<close> in the theory of the ring's invariant; only an unallocated one
  would give no bytes.)
\<close>

definition reap_entry :: "cqe \<Rightarrow> ('r, 'z) st_scheme \<Rightarrow> completion_event \<times> ('r, 'z) st_scheme" where
  "reap_entry entry s =
     (let ud = cqe_user_data entry;
          event = (\<lambda>buffer. \<lparr>ev_user_data = ud, ev_result = cqe_result entry, ev_buffer = buffer\<rparr>);
          removed = (\<lambda>d. (free_blocks (owned_blocks d) s)
             \<lparr>ring := (ring s)\<lparr>owned_data := (owned_data (ring s))(ud := None)\<rparr>\<rparr>)
      in case owned_data (ring s) ud of
           None \<Rightarrow> (event None, s)
         | Some (Buffer b) \<Rightarrow>
             (event (map_option (finish_buffer (cqe_result entry)) (heap s b)), removed (Buffer b))
         | Some d \<Rightarrow> (event None, removed d))"

fun reap_entries ::
  "cqe list \<Rightarrow> ('r, 'z) st_scheme \<Rightarrow> completion_event list \<times> ('r, 'z) st_scheme" where
  "reap_entries [] s = ([], s)"
| "reap_entries (entry # entries) s =
     (case reap_entry entry s of (ev, s') \<Rightarrow>
        (case reap_entries entries s' of (evs, s'') \<Rightarrow> (ev # evs, s'')))"

definition get_completion_entries ::
  "('r, 'w) env \<Rightarrow> ('r, 'z) st_scheme \<Rightarrow>
     ((exn + completion_event list) \<times> ('r, 'z) st_scheme) option" where
  "get_completion_entries E s = (case the_io_uring (ring s) of
     None \<Rightarrow> Some (Inl (ValueError RingClosed), s)
   | Some r \<Rightarrow>
       map_option (\<lambda>(entries, r', m').
         (case reap_entries entries
                 (s\<lparr>ring := (ring s)\<lparr>the_io_uring := Some r'\<rparr>, heap := m'\<rparr>) of
            (evs, s') \<Rightarrow> (Inr evs, s')))
       (drain (env_ring E) r (heap s) []))"

section \<open>The event descriptor, closing and creating\<close>

definition register_eventfd :: "('r, 'w) env \<Rightarrow> i32 \<Rightarrow> (('r, 'z) st_scheme, unit) prog" where
  "register_eventfd E event_fd = (\<lambda>s. case the_io_uring (ring s) of
     None \<Rightarrow> (Inl (ValueError RingClosed), s)
   | Some r \<Rightarrow>
       (case ur_register_eventfd (env_ring E) event_fd r of
          (x, r') \<Rightarrow>
            ((case x of Inl err \<Rightarrow> Inl (OSError (Some err)) | Inr u \<Rightarrow> Inr u),
             s\<lparr>ring := (ring s)\<lparr>the_io_uring := Some r'\<rparr>\<rparr>)))"

definition close_ring :: "(('r, 'z) st_scheme, unit) prog" where
  "close_ring = modP (\<lambda>s. s\<lparr>ring := (ring s)\<lparr>the_io_uring := None\<rparr>\<rparr>)"

definition supported_kernel :: "nat \<times> nat \<Rightarrow> bool" where
  "supported_kernel v =
     (case v of (major, minor) \<Rightarrow> \<not> (major < 5 \<or> major < 6 \<and> minor < 18))"

definition builder_config :: "nat \<times> nat \<Rightarrow> u32 \<Rightarrow> u32 \<Rightarrow> u32 \<Rightarrow> bool \<Rightarrow> ring_config" where
  "builder_config v entries cq_entries sqlpoll_idle_ms single_issuer =
     \<lparr>cfg_dontfork = True, cfg_submit_all = True,
      cfg_single_issuer = (6 \<le> fst v \<and> single_issuer),
      cfg_sqpoll = (if 0 < sqlpoll_idle_ms then Some sqlpoll_idle_ms else None),
      cfg_cqsize = (if entries < cq_entries then Some cq_entries else None),
      cfg_entries = entries\<rparr>"

definition create_io_ring ::
  "('r, 'w) env \<Rightarrow> u32 \<Rightarrow> u32 \<Rightarrow> u32 \<Rightarrow> bool \<Rightarrow> bool \<Rightarrow> exn + 'r the_io_ring" where
  "create_io_ring E entries cq_entries sqlpoll_idle_ms single_issuer auto_on =
     (let kernel_version = (case env_kernel_version E of None \<Rightarrow> (5, 18) | Some v \<Rightarrow> v) in
      if entries = 0 then Inl (ValueError EntriesZero)
      else if \<not> supported_kernel kernel_version then Inl (OSError None)
      else (case ur_build (env_ring E)
                   (builder_config kernel_version entries cq_entries sqlpoll_idle_ms single_issuer) of
              Inl err \<Rightarrow> Inl (OSError (Some err))
            | Inr r \<Rightarrow>
                (if \<not> ur_feature_nodrop (env_ring E) r then Inl PanicException
                 else (case ur_register_probe (env_ring E) r of
                         Inl err \<Rightarrow> Inl (OSError (Some err))
                       | Inr p \<Rightarrow>
                           Inr \<lparr>the_io_uring = Some r, probe = p, user_data_counter = 0,
                                autosubmit_on = auto_on, owned_data = Map.empty\<rparr>))))"

end
