(* ===== verification/Sample_Env.thy ===== *)
theory Sample_Env
  imports Foreign
begin

text \<open>
  Concrete values for the parameters, on which the witnesses evaluate the model: the flag bits of
  Linux, the conversions as documented, and a small simulated ring. The simulated kernel runs an
  operation when it is submitted and posts its completion at once; it is one possible
  environment, not a model of the kernel, and no property is stated about it.
\<close>

definition linux_flags :: flags_api where
  "linux_flags = \<lparr>fl_FIXED_FILE = 1, fl_IO_DRAIN = 2, fl_IO_LINK = 4, fl_IO_HARDLINK = 8,
     fl_ASYNC = 16, fl_BUFFER_SELECT = 32, fl_SKIP_SUCCESS = 64, fl_empty = 0,
     fl_union = (\<lambda>a b. a OR b), fl_contains = (\<lambda>a b. a AND b = b),
     fl_from_bits_truncate = (\<lambda>a. a AND 127)\<rparr>"

lemma linux_flags_laws: "flags_laws linux_flags"
  by (simp add: flags_laws_def linux_flags_def all_flags_def)

definition conv_unsigned :: "int \<Rightarrow> exn + 'w::len word" where
  "conv_unsigned n =
     (if 0 \<le> n \<and> n < 2 ^ LENGTH('w) then Inr (word_of_int n) else Inl OverflowError)"

definition conv_signed :: "int \<Rightarrow> exn + 'w::len word" where
  "conv_signed n =
     (if - (2 ^ (LENGTH('w) - 1)) \<le> n \<and> n < 2 ^ (LENGTH('w) - 1)
      then Inr (word_of_int n) else Inl OverflowError)"

fun conv_bytes :: "pybuf \<Rightarrow> exn + u8 list" where
  "conv_bytes (Bytes bs) = Inr bs"
| "conv_bytes (ByteArray _) = Inl TypeError"

definition sample_pyo3 :: pyo3_api where
  "sample_pyo3 = \<lparr>py_i32 = conv_signed, py_i64 = conv_signed, py_u8 = conv_unsigned,
     py_u16 = conv_unsigned, py_u32 = conv_unsigned, py_u64 = conv_unsigned,
     py_usize = conv_unsigned, py_bytes = conv_bytes\<rparr>"

lemma sample_pyo3_laws: "pyo3_laws sample_pyo3"
  by (simp add: pyo3_laws_def sample_pyo3_def converts_unsigned_def converts_signed_def
      conv_unsigned_def conv_signed_def)

section \<open>A simulated ring\<close>

record sim =
  sim_cap :: nat
  sim_sq :: "sqe list"
  sim_cq :: "(sqe \<times> i32) list"

text \<open>Reads return \<open>***\<close>, as much of it as fits; writes take everything; other calls return 0.\<close>

fun sim_result :: "sqe_op \<Rightarrow> i32" where
  "sim_result (Read _ _ n _) = (if unat n < 3 then n else 3)"
| "sim_result (Recv _ _ n _) = (if unat n < 3 then n else 3)"
| "sim_result (Write _ _ n _) = n"
| "sim_result (Send _ _ n _) = n"
| "sim_result (OpenAt _ _ _ _) = 5"
| "sim_result _ = 0"

fun sim_effect :: "sqe_op \<Rightarrow> mem \<Rightarrow> mem" where
  "sim_effect (Read _ b n _) m = (case m b of None \<Rightarrow> m
     | Some bs \<Rightarrow> m(b \<mapsto> take (length bs) (replicate (min 3 (unat n)) 42 @ drop (min 3 (unat n)) bs)))"
| "sim_effect (Recv _ b n _) m = (case m b of None \<Rightarrow> m
     | Some bs \<Rightarrow> m(b \<mapsto> take (length bs) (replicate (min 3 (unat n)) 42 @ drop (min 3 (unat n)) bs)))"
| "sim_effect _ m = m"

fun sim_run :: "sqe list \<Rightarrow> mem \<Rightarrow> mem" where
  "sim_run [] m = m"
| "sim_run (e # es) m = sim_run es (sim_effect (op_of e) m)"

definition sim_submit :: "sim \<Rightarrow> mem \<Rightarrow> (int + nat) \<times> sim \<times> mem" where
  "sim_submit r m = (Inr (length (sim_sq r)),
     r\<lparr>sim_sq := [], sim_cq := sim_cq r @ map (\<lambda>e. (e, sim_result (op_of e))) (sim_sq r)\<rparr>,
     sim_run (sim_sq r) m)"

definition sim_uring :: "sim uring_api" where
  "sim_uring = \<lparr>
     ur_push = (\<lambda>e r. if length (sim_sq r) < sim_cap r then Some (r\<lparr>sim_sq := sim_sq r @ [e]\<rparr>) else None),
     ur_sq_len = (\<lambda>r. length (sim_sq r)),
     ur_submit = sim_submit,
     ur_submit_and_wait = (\<lambda>n. sim_submit),
     ur_completion = (\<lambda>r m.
       (map (\<lambda>(e, x). \<lparr>cqe_user_data = sqe_user_data e, cqe_result = x\<rparr>) (sim_cq r), r, m)),
     ur_advance = (\<lambda>es r. r\<lparr>sim_cq := []\<rparr>),
     ur_sync = (\<lambda>r m. (r, m)),
     ur_register_eventfd = (\<lambda>f r. (if f = 0 then Inl 22 else Inr (), r)),
     ur_build = (\<lambda>cfg. Inr \<lparr>sim_cap = unat (cfg_entries cfg), sim_sq = [], sim_cq = []\<rparr>),
     ur_feature_nodrop = (\<lambda>r. True),
     ur_register_probe = (\<lambda>r. Inr (\<lambda>c. True))\<rparr>"

definition sim_live :: "sim \<Rightarrow> sqe multiset" where
  "sim_live r = mset (sim_sq r) + mset (map fst (sim_cq r))"

lemma sim_effect_frame: "mem_frame (op_writes p) m (sim_effect p m)"
  by (cases p) (auto simp: mem_frame_def split: option.splits)

lemma sim_run_frame: "mem_frame (writes_of (mset es)) m (sim_run es m)"
proof (induction es arbitrary: m)
  case Nil
  then show ?case by simp
next
  case (Cons e es)
  have sub: "writes_of (mset es) \<subseteq> writes_of (mset (e # es))"
    by (rule writes_of_mono) simp
  have op: "op_writes (op_of e) \<subseteq> writes_of (mset (e # es))"
    by (auto simp: writes_of_def)
  have "mem_frame (writes_of (mset (e # es))) m (sim_effect (op_of e) m)"
    using mem_frame_trans [OF mem_frame_refl sim_effect_frame op] .
  from mem_frame_trans [OF this Cons.IH sub] show ?case by simp
qed

lemma sim_with_ud:
  assumes "(e, x) \<in> set (sim_cq r)" "with_ud (sqe_user_data e) (mset (sim_sq r)) \<noteq> {#}"
  shows "2 \<le> size (with_ud (sqe_user_data e) (sim_live r))"
proof -
  have "e \<in># with_ud (sqe_user_data e) (mset (map fst (sim_cq r)))"
    using assms(1) by (force simp: with_ud_def)
  then have "1 \<le> size (with_ud (sqe_user_data e) (mset (map fst (sim_cq r))))"
    by (metis Suc_leI One_nat_def empty_not_add_mset insert_DiffM nonempty_has_size)
  moreover have "1 \<le> size (with_ud (sqe_user_data e) (mset (sim_sq r)))"
    using assms(2) by (metis Suc_leI One_nat_def nonempty_has_size)
  ultimately show ?thesis by (simp add: sim_live_def with_ud_def)
qed

lemma sim_shared_ud:
  fixes r :: sim
  assumes "(e, x) \<in> set (sim_cq r)" "e' \<in> set (sim_sq r)" "sqe_user_data e' = sqe_user_data e"
  shows "2 \<le> size (filter_mset (\<lambda>a. sqe_user_data a = sqe_user_data e) (mset (sim_sq r))) +
             size (filter_mset (\<lambda>a. sqe_user_data a = sqe_user_data e) (image_mset fst (mset (sim_cq r))))"
  using sim_with_ud [OF assms(1)] assms(2,3) by (auto simp: with_ud_def sim_live_def)

lemma sim_uring_laws: "uring_laws sim_uring sim_live"
proof -
  have submit: "enter_law sim_live r m r' m'" if "sim_submit r m = (x, r', m')" for r m x r' m'
  proof -
    have "writes_of (mset (sim_sq r)) \<subseteq> writes_of (sim_live r)"
      by (rule writes_of_mono) (simp add: sim_live_def)
    then have "mem_frame (writes_of (sim_live r)) m (sim_run (sim_sq r) m)"
      by (rule mem_frame_trans [OF mem_frame_refl sim_run_frame])
    with that show ?thesis
      by (auto simp: sim_submit_def enter_law_def sim_live_def comp_def multiset.map_comp)
  qed
  have completion: "completion_law sim_uring sim_live r m es r' m'"
    if "ur_completion sim_uring r m = (es, r', m')" for r m es r' m'
    using that sim_shared_ud [where r = r]
    by (auto simp: completion_law_def enter_law_def sim_uring_def sim_live_def with_ud_def)
  show ?thesis
    unfolding uring_laws_def
    using submit completion
    by (auto simp: sim_uring_def sim_live_def enter_law_def split: if_splits)
qed

section \<open>The environment of the witnesses\<close>

text \<open>The state of the files is the list of descriptors closed so far.\<close>

definition sample_os :: "int list os_api" where
  "sample_os = \<lparr>os_close = (\<lambda>fd w. (if fd < 0 then Some 9 else None, fd # w)),
     os_eventfd = (\<lambda>init flags w. (Inr 9, w)),
     os_read = (\<lambda>fd n w. (Inr (replicate n 0), w))\<rparr>"

definition sample_env :: "(sim, int list) env" where
  "sample_env = \<lparr>env_flags = linux_flags, env_pyo3 = sample_pyo3, env_ring = sim_uring,
     env_sockaddr = (\<lambda>a. case a of SockV4 _ _ \<Rightarrow> replicate 16 0 | SockV6 _ _ \<Rightarrow> replicate 28 0),
     env_kernel_version = Some (6, 1), env_os = sample_os\<rparr>"

lemma linux_flags_eq [simp]: "env_flags sample_env = linux_flags"
  by (simp add: sample_env_def)

lemma sample_env_laws:
  "flags_laws linux_flags"
  "pyo3_laws (env_pyo3 sample_env)"
  "uring_laws (env_ring sample_env) sim_live"
  by (simp_all add: sample_env_def linux_flags_laws sample_pyo3_laws sim_uring_laws)

end
