(* ===== verification/Ring_Inv.thy ===== *)
theory Ring_Inv
  imports Ring_Core Sample_Env
begin

text \<open>
  The invariant of \<open>TheIoRing\<close>: the reason the Rust object owns data at all. Every operation the
  kernel still knows about finds its memory allocated, large enough and held in \<open>owned_data\<close>
  under the operation's own \<open>user_data\<close>.
\<close>

section \<open>The invariant\<close>

text \<open>
  The table owns allocated blocks, each under one key, and the allocator hands out new ones.
\<close>

definition mem_ok :: "('r, 'z) st_scheme \<Rightarrow> bool" where
  "mem_ok s \<longleftrightarrow>
     (\<forall>u d. owned_data (ring s) u = Some d \<longrightarrow> set (owned_blocks d) \<subseteq> dom (heap s)) \<and>
     (\<forall>u v d d'. owned_data (ring s) u = Some d \<longrightarrow> owned_data (ring s) v = Some d' \<longrightarrow> u \<noteq> v \<longrightarrow>
        set (owned_blocks d) \<inter> set (owned_blocks d') = {}) \<and>
     (\<forall>b \<in> dom (heap s). b < brk s)"

text \<open>One live operation: its memory is owned under its own key and large enough.\<close>

definition covered :: "(u64 \<rightharpoonup> owned_data) \<Rightarrow> mem \<Rightarrow> sqe \<Rightarrow> bool" where
  "covered owned m e \<longleftrightarrow>
     (\<forall>b \<in> sqe_blocks e. \<exists>d bs. owned (sqe_user_data e) = Some d \<and> b \<in> set (owned_blocks d) \<and>
        m b = Some bs \<and> op_fits (op_of e) bs)"

text \<open>
  A \<open>user_data\<close> below the counter belongs to at most one live operation; only the internal
  timeouts carry another one. The counter stays in the lower half of its range, away from the
  value of the timeouts.
\<close>

definition ids_ok :: "u64 \<Rightarrow> (u64 \<rightharpoonup> owned_data) \<Rightarrow> sqe multiset \<Rightarrow> bool" where
  "ids_ok c owned L \<longleftrightarrow>
     c \<le> 2 ^ 63 \<and>
     (\<forall>u \<in> dom owned. u < c) \<and>
     (\<forall>e \<in># L. sqe_user_data e < c \<and> size (with_ud (sqe_user_data e) L) = 1 \<or>
        sqe_user_data e = timeout_user_data \<and> sqe_blocks e = {})"

definition ring_live :: "('r \<Rightarrow> sqe multiset) \<Rightarrow> ('r, 'z) st_scheme \<Rightarrow> sqe multiset" where
  "ring_live live s = (case the_io_uring (ring s) of None \<Rightarrow> {#} | Some r \<Rightarrow> live r)"

definition ring_inv :: "('r \<Rightarrow> sqe multiset) \<Rightarrow> ('r, 'z) st_scheme \<Rightarrow> bool" where
  "ring_inv live s \<longleftrightarrow>
     mem_ok s \<and>
     ids_ok (user_data_counter (ring s)) (owned_data (ring s)) (ring_live live s) \<and>
     (\<forall>e \<in># ring_live live s. covered (owned_data (ring s)) (heap s) e)"

text \<open>A value no live operation and no owned data carries.\<close>

definition unused_ud :: "('r \<Rightarrow> sqe multiset) \<Rightarrow> u64 \<Rightarrow> ('r, 'z) st_scheme \<Rightarrow> bool" where
  "unused_ud live u s \<longleftrightarrow>
     owned_data (ring s) u = None \<and> with_ud u (ring_live live s) = {#} \<and>
     u < user_data_counter (ring s)"

lemma ring_live_simps [simp]:
  "the_io_uring (ring s) = None \<Longrightarrow> ring_live live s = {#}"
  "the_io_uring (ring s) = Some r \<Longrightarrow> ring_live live s = live r"
  by (simp_all add: ring_live_def)

section \<open>Multisets of live operations\<close>

lemma with_ud_mono: "L \<subseteq># K \<Longrightarrow> with_ud u L \<subseteq># with_ud u K"
  by (simp add: with_ud_def multiset_filter_mono)

lemma with_ud_add [simp]:
  "with_ud u (add_mset e L) = (if sqe_user_data e = u then add_mset e (with_ud u L) else with_ud u L)"
  by (simp add: with_ud_def)

lemma with_ud_empty_iff: "with_ud u L = {#} \<longleftrightarrow> (\<forall>e \<in># L. sqe_user_data e \<noteq> u)"
  by (auto simp: with_ud_def filter_mset_eq_mempty_iff)

lemma ids_ok_mono:
  assumes ok: "ids_ok c owned L" and sub: "K \<subseteq># L"
  shows "ids_ok c owned K"
proof -
  have "size (with_ud (sqe_user_data e) K) = 1"
    if e: "e \<in># K" and one: "size (with_ud (sqe_user_data e) L) = 1" for e
  proof -
    have "size (with_ud (sqe_user_data e) K) \<le> 1"
      using size_mset_mono [OF with_ud_mono [OF sub]] one by metis
    moreover have "with_ud (sqe_user_data e) K \<noteq> {#}"
      using e by (auto simp: with_ud_empty_iff)
    ultimately show ?thesis by (simp add: le_Suc_eq)
  qed
  with ok mset_subset_eqD [OF sub] show ?thesis
    unfolding ids_ok_def by blast
qed

text \<open>Two live operations that use the same memory are the same one.\<close>

lemma live_blocks_disjoint:
  assumes "mem_ok s" "ids_ok c (owned_data (ring s)) L"
    and "\<forall>e \<in># L. covered (owned_data (ring s)) (heap s) e"
    and "e \<in># L" "e' \<in># L" "b \<in> sqe_blocks e" "b \<in> sqe_blocks e'"
  shows "e = e'"
proof -
  have eq: "sqe_user_data e = sqe_user_data e'"
  proof (rule ccontr)
    assume ne: "sqe_user_data e \<noteq> sqe_user_data e'"
    from assms(3,4,6) obtain d where d: "owned_data (ring s) (sqe_user_data e) = Some d"
      "b \<in> set (owned_blocks d)" by (auto simp: covered_def)
    from assms(3,5,7) obtain d' where d': "owned_data (ring s) (sqe_user_data e') = Some d'"
      "b \<in> set (owned_blocks d')" by (auto simp: covered_def)
    have "set (owned_blocks d) \<inter> set (owned_blocks d') = {}"
      using assms(1) d(1) d'(1) ne unfolding mem_ok_def by blast
    with d(2) d'(2) show False by blast
  qed
  have "size (with_ud (sqe_user_data e) L) = 1"
    using assms(2,4,6) by (auto simp: ids_ok_def)
  then obtain a where a: "with_ud (sqe_user_data e) L = {#a#}"
    by (metis size_1_singleton_mset)
  have "e \<in># with_ud (sqe_user_data e) L" "e' \<in># with_ud (sqe_user_data e) L"
    using assms(4,5) eq by (simp_all add: with_ud_def)
  with a show ?thesis by simp
qed

section \<open>Calls into the kernel keep the invariant\<close>

lemma op_fits_cong:
  assumes "op_fits p bs" "length bs' = length bs" "op_writes p = {} \<Longrightarrow> bs' = bs"
  shows "op_fits p bs'"
  using assms by (cases p) auto

lemma covered_frame:
  assumes ok: "mem_ok s" "ids_ok c (owned_data (ring s)) L"
    and cov: "\<forall>e \<in># L. covered (owned_data (ring s)) (heap s) e"
    and frame: "mem_frame (writes_of L) (heap s) m'" and e: "e \<in># L"
  shows "covered (owned_data (ring s)) m' e"
  unfolding covered_def
proof
  fix b assume b: "b \<in> sqe_blocks e"
  with cov e obtain d bs where d: "owned_data (ring s) (sqe_user_data e) = Some d"
      "b \<in> set (owned_blocks d)" and bs: "heap s b = Some bs" "op_fits (op_of e) bs"
    unfolding covered_def by blast
  from mem_frame_SomeD [OF frame bs(1)] obtain bs' where
    bs': "m' b = Some bs'" "length bs' = length bs" by blast
  have "bs' = bs" if "op_writes (op_of e) = {}"
  proof -
    have "b \<notin> writes_of L"
    proof
      assume "b \<in> writes_of L"
      then obtain e' where e': "e' \<in># L" "b \<in> op_writes (op_of e')"
        by (auto simp: writes_of_def)
      then have "b \<in> sqe_blocks e'"
        using op_writes_subset [of "op_of e'"] by (auto simp: sqe_blocks_def)
      with live_blocks_disjoint [OF ok cov e e'(1) b] have "e = e'" by blast
      with e'(2) that show False by simp
    qed
    with frame bs(1) bs'(1) show ?thesis by (auto simp: mem_frame_def)
  qed
  with bs(2) bs'(2) have "op_fits (op_of e) bs'" by (rule op_fits_cong)
  with d bs'(1) show "\<exists>d bs. owned_data (ring s) (sqe_user_data e) = Some d \<and>
      b \<in> set (owned_blocks d) \<and> m' b = Some bs \<and> op_fits (op_of e) bs" by blast
qed

text \<open>The state after the kernel was entered with ring \<open>r'\<close> and memory \<open>m'\<close> left behind.\<close>

definition entered :: "'r \<Rightarrow> mem \<Rightarrow> ('r, 'z) st_scheme \<Rightarrow> ('r, 'z) st_scheme" where
  "entered r' m' s = s\<lparr>ring := (ring s)\<lparr>the_io_uring := Some r'\<rparr>, heap := m'\<rparr>"

lemma entered_simps [simp]:
  "the_io_uring (ring (entered r' m' s)) = Some r'"
  "owned_data (ring (entered r' m' s)) = owned_data (ring s)"
  "user_data_counter (ring (entered r' m' s)) = user_data_counter (ring s)"
  "autosubmit_on (ring (entered r' m' s)) = autosubmit_on (ring s)"
  "probe (ring (entered r' m' s)) = probe (ring s)"
  "heap (entered r' m' s) = m'"
  "brk (entered r' m' s) = brk s"
  by (simp_all add: entered_def)

lemma mem_ok_frame:
  "mem_ok s \<Longrightarrow> mem_frame B (heap s) m' \<Longrightarrow> mem_ok (entered r' m' s)"
  unfolding mem_ok_def mem_frame_def by simp

lemma ring_inv_entered:
  assumes inv: "ring_inv live s" and open_ring: "the_io_uring (ring s) = Some r"
    and enter: "enter_law live r (heap s) r' m'"
  shows "ring_inv live (entered r' m' s)"
proof -
  have sub: "live r' \<subseteq># live r" and frame: "mem_frame (writes_of (live r)) (heap s) m'"
    using enter by (simp_all add: enter_law_def)
  have ok: "mem_ok s" "ids_ok (user_data_counter (ring s)) (owned_data (ring s)) (live r)"
    and cov: "\<forall>e \<in># live r. covered (owned_data (ring s)) (heap s) e"
    using inv open_ring by (simp_all add: ring_inv_def)
  have "\<forall>e \<in># live r'. covered (owned_data (ring s)) m' e"
    using covered_frame [OF ok cov frame] mset_subset_eqD [OF sub] by blast
  with mem_ok_frame [OF ok(1) frame] ids_ok_mono [OF ok(2) sub] show ?thesis
    by (simp add: ring_inv_def)
qed

section \<open>The operations of the ring\<close>

text \<open>The loop of \<open>autosubmit\<close>, unrolled.\<close>

lemma autosubmit_loop_unrolled:
  "autosubmit_loop U e auto False r m =
     (case ur_push U e r of
        Some r'' \<Rightarrow> (Inr (), r'', m)
      | None \<Rightarrow>
          (if \<not> auto then (Inl (ValueError QueueFull), r, m)
           else (case ur_submit U r m of
                   (Inl err, r', m') \<Rightarrow> (Inl (OSError (Some err)), r', m')
                 | (Inr n, r', m') \<Rightarrow>
                     (case ur_push U e r' of
                        Some r'' \<Rightarrow> (Inr (), r'', m')
                      | None \<Rightarrow> (Inl (ValueError QueueFull), r', m')))))"
  by (simp add: autosubmit_loop.simps [of U e auto False r m]
      autosubmit_loop.simps [of U e True True] split: option.split prod.split sum.split)

lemma enter_law_refl [intro, simp]: "enter_law live r m r m"
  by (simp add: enter_law_def)

text \<open>
  Whatever the loop does, it enters the kernel at most once, and pushes the entry if and only if
  it succeeds.
\<close>

lemma autosubmit_loop_cases:
  assumes laws: "uring_laws U live" and run: "autosubmit_loop U e auto False r m = (x, r', m')"
  shows "\<exists>r1. enter_law live r m r1 m' \<and>
           (if isl x then r' = r1 else live r' = add_mset e (live r1))"
proof (cases "ur_push U e r")
  case (Some r'')
  with run uring_lawsD(2) [OF laws Some] show ?thesis
    by (auto simp: autosubmit_loop_unrolled)
next
  case None
  obtain y r1 m1 where sub: "ur_submit U r m = (y, r1, m1)" by (metis prod_cases3)
  from uring_lawsD(3) [OF laws sub] have "enter_law live r m r1 m1" .
  with None run sub show ?thesis
    by (auto simp: autosubmit_loop_unrolled dest: uring_lawsD(2) [OF laws]
        split: if_splits sum.splits option.splits)
qed

lemma ring_inv_submit:
  assumes "uring_laws (env_ring E) live" "ring_inv live s"
  shows "ring_inv live (snd (submit E s))"
  using assms
  by (auto simp: submit_def simp flip: entered_def split: option.split prod.split
      intro: ring_inv_entered [OF assms(2)] uring_lawsD(3) [OF assms(1)])

lemma ring_inv_wait_cqes:
  assumes "uring_laws (env_ring E) live" "ring_inv live s"
  shows "ring_inv live (snd (wait_cqes E n s))"
  using assms
  by (auto simp: wait_cqes_def simp flip: entered_def split: option.split prod.split
      intro: ring_inv_entered [OF assms(2)] uring_lawsD(4) [OF assms(1)])

lemma ring_inv_register_eventfd:
  assumes "uring_laws (env_ring E) live" "ring_inv live s"
  shows "ring_inv live (snd (register_eventfd E fd s))"
proof (cases "the_io_uring (ring s)")
  case (Some r)
  obtain x r' where reg: "ur_register_eventfd (env_ring E) fd r = (x, r')" by (metis prod.exhaust)
  have "enter_law live r (heap s) r' (heap s)"
    using uring_lawsD(7) [OF assms(1) reg] by (simp add: enter_law_def)
  from ring_inv_entered [OF assms(2) Some this] Some reg show ?thesis
    by (simp add: register_eventfd_def entered_def)
qed (use assms in \<open>simp add: register_eventfd_def\<close>)

lemma ring_inv_close: "ring_inv live s \<Longrightarrow> ring_inv live (snd (close_ring s))"
  by (auto simp: close_ring_def ring_inv_def mem_ok_def ids_ok_def)

text \<open>The counter does not wrap before \<open>2 ^ 63\<close> values have been handed out.\<close>

lemma ring_inv_get_next_user_data:
  assumes inv: "ring_inv live s" and small: "user_data_counter (ring s) < 2 ^ 63"
    and run: "get_next_user_data s = (Inr u, t)"
  shows "ring_inv live t" "unused_ud live u t"
proof -
  let ?c = "user_data_counter (ring s)"
  have u: "u = ?c"
    and t: "t = s\<lparr>ring := (ring s)\<lparr>user_data_counter := ?c + 1\<rparr>\<rparr>"
    using run by (auto simp: get_next_user_data_def)
  have less: "?c < ?c + 1" and le: "?c + 1 \<le> 2 ^ 63"
    using small_word_Suc [OF small] by simp_all
  have ne: "?c \<noteq> timeout_user_data"
    using small by (auto simp: timeout_user_data_def)
  have live: "ring_live live t = ring_live live s"
    by (simp add: t ring_live_def)
  have ids: "ids_ok ?c (owned_data (ring s)) (ring_live live s)"
    using inv by (simp add: ring_inv_def)
  have "ids_ok (?c + 1) (owned_data (ring s)) (ring_live live s)"
    using ids less le unfolding ids_ok_def by (meson less_trans)
  with inv show "ring_inv live t"
    unfolding ring_inv_def live by (simp add: t mem_ok_def)
  have "owned_data (ring s) ?c = None"
    using ids unfolding ids_ok_def by (metis domIff order_less_irrefl)
  moreover have "with_ud ?c (ring_live live s) = {#}"
    using ids ne unfolding ids_ok_def with_ud_empty_iff by (metis order_less_irrefl)
  ultimately show "unused_ud live u t"
    using less by (simp add: unused_ud_def live u) (simp add: t)
qed

section \<open>Submissions that hand memory to the ring\<close>

definition owned_somewhere :: "('r, 'z) st_scheme \<Rightarrow> block \<Rightarrow> bool" where
  "owned_somewhere s b \<longleftrightarrow> (\<exists>u d. owned_data (ring s) u = Some d \<and> b \<in> set (owned_blocks d))"

lemma mem_ok_fresh: "mem_ok s \<Longrightarrow> heap s (brk s) = None"
  unfolding mem_ok_def by (metis domIff nat_less_le)

lemma owned_allocated: "mem_ok s \<Longrightarrow> owned_somewhere s b \<Longrightarrow> b \<in> dom (heap s)"
  unfolding mem_ok_def owned_somewhere_def by blast

lemma covered_owned: "covered (owned_data (ring s)) m e \<Longrightarrow> b \<in> sqe_blocks e \<Longrightarrow> owned_somewhere s b"
  unfolding covered_def owned_somewhere_def by blast

text \<open>Memory and table may change elsewhere.\<close>

lemma covered_cong:
  assumes "covered owned m e"
    and "sqe_blocks e \<noteq> {} \<Longrightarrow> owned' (sqe_user_data e) = owned (sqe_user_data e)"
    and "\<And>b. b \<in> sqe_blocks e \<Longrightarrow> m' b = m b"
  shows "covered owned' m' e"
  using assms unfolding covered_def by (metis empty_iff)

lemma ring_inv_alloc:
  assumes inv: "ring_inv live s"
  shows "ring_inv live (snd (alloc bs s))"
proof -
  let ?t = "snd (alloc bs s)"
  have ok: "mem_ok s" using inv by (simp add: ring_inv_def)
  have "mem_ok ?t"
    using ok unfolding mem_ok_def alloc_def by (auto simp: less_Suc_eq)
  moreover have "covered (owned_data (ring ?t)) (heap ?t) e" if "e \<in># ring_live live s" for e
  proof (rule covered_cong)
    show cov: "covered (owned_data (ring s)) (heap s) e"
      using inv that by (simp add: ring_inv_def)
    show "heap ?t b = heap s b" if "b \<in> sqe_blocks e" for b
      using owned_allocated [OF ok covered_owned [OF cov that]] mem_ok_fresh [OF ok]
      by (auto simp: alloc_def)
  qed (simp add: alloc_def)
  moreover have "ring_live live ?t = ring_live live s" by (simp add: alloc_def ring_live_def)
  ultimately show ?thesis
    using inv by (simp add: ring_inv_def) (simp add: alloc_def)
qed

lemma ring_inv_free:
  assumes inv: "ring_inv live s" and free: "\<not> owned_somewhere s b"
  shows "ring_inv live (free_blocks [b] s)"
proof -
  let ?t = "free_blocks [b] s"
  have ok: "mem_ok s" using inv by (simp add: ring_inv_def)
  have "mem_ok ?t"
    using ok free unfolding mem_ok_def free_blocks_def owned_somewhere_def by auto
  moreover have "covered (owned_data (ring ?t)) (heap ?t) e" if "e \<in># ring_live live s" for e
  proof (rule covered_cong)
    show cov: "covered (owned_data (ring s)) (heap s) e"
      using inv that by (simp add: ring_inv_def)
    show "heap ?t c = heap s c" if "c \<in> sqe_blocks e" for c
      using covered_owned [OF cov that] free by (cases "c = b") (auto simp: free_blocks_def)
  qed (simp add: free_blocks_def)
  moreover have "ring_live live ?t = ring_live live s" by (simp add: free_blocks_def ring_live_def)
  ultimately show ?thesis
    using inv by (simp add: ring_inv_def) (simp add: free_blocks_def)
qed

lemma mem_ok_insert:
  assumes ok: "mem_ok s" and fresh: "\<not> owned_somewhere s b"
    and t: "owned_data (ring t) = (owned_data (ring s))(u \<mapsto> d)" "owned_blocks d = [b]"
      "heap t = heap s" "brk t = brk s" "b \<in> dom (heap s)"
  shows "mem_ok t"
proof -
  have no: "b \<notin> set (owned_blocks d')" if "owned_data (ring s) v = Some d'" for v d'
    using fresh that by (auto simp: owned_somewhere_def)
  have sub: "set (owned_blocks d') \<subseteq> dom (heap s)" if "owned_data (ring s) v = Some d'" for v d'
    using ok that by (auto simp: mem_ok_def)
  have dis: "set (owned_blocks d1) \<inter> set (owned_blocks d2) = {}"
    if "owned_data (ring s) v = Some d1" "owned_data (ring s) w = Some d2" "v \<noteq> w" for v w d1 d2
    using ok that unfolding mem_ok_def by blast
  have lt: "\<forall>b \<in> dom (heap s). b < brk s"
    using ok by (simp add: mem_ok_def)
  have "set (owned_blocks d') \<subseteq> dom (heap t)" if "owned_data (ring t) v = Some d'" for v d'
    using that sub t by (auto split: if_splits)
  moreover have "set (owned_blocks d1) \<inter> set (owned_blocks d2) = {}"
    if "owned_data (ring t) v = Some d1" "owned_data (ring t) w = Some d2" "v \<noteq> w" for v w d1 d2
    using that t(1,2) no [of v d1] no [of w d2] dis [of v d1 w d2] by (auto split: if_splits)
  ultimately show ?thesis
    using lt t unfolding mem_ok_def by simp
qed

lemma ids_ok_add:
  assumes ids: "ids_ok c owned L" and lt: "sqe_user_data e < c"
    and nolive: "with_ud (sqe_user_data e) L = {#}"
  shows "ids_ok c (owned(sqe_user_data e \<mapsto> d)) (add_mset e L)"
proof -
  have ne: "sqe_user_data e' \<noteq> sqe_user_data e" if "e' \<in># L" for e'
    using nolive that by (simp add: with_ud_empty_iff)
  have one: "sqe_user_data e' < c \<and> size (with_ud (sqe_user_data e') L) = 1 \<or>
      sqe_user_data e' = timeout_user_data \<and> sqe_blocks e' = {}" if "e' \<in># L" for e'
    using ids that by (simp add: ids_ok_def)
  have dm: "c \<le> 2 ^ 63 \<and> (\<forall>u \<in> dom (owned(sqe_user_data e \<mapsto> d)). u < c)"
    using ids lt by (simp add: ids_ok_def)
  have "sqe_user_data e' < c \<and> size (with_ud (sqe_user_data e') (add_mset e L)) = 1 \<or>
      sqe_user_data e' = timeout_user_data \<and> sqe_blocks e' = {}" if "e' \<in># add_mset e L" for e'
  proof (cases "e' \<in># L")
    case True
    with one [OF True] ne [OF True] show ?thesis by simp
  next
    case False
    with that lt nolive show ?thesis by simp
  qed
  with dm show ?thesis unfolding ids_ok_def by blast
qed

text \<open>
  The entry joins the live operations and its block the table, at the same time for the
  invariant: between the two steps nothing enters the kernel.
\<close>

lemma ring_inv_join:
  assumes inv: "ring_inv live s" and open_ring: "the_io_uring (ring s) = Some r"
    and pushed: "live r' = add_mset e (live r)"
    and unused: "unused_ud live (sqe_user_data e) s"
    and blk: "sqe_blocks e = {b}" "owned_blocks d = [b]" "\<not> owned_somewhere s b"
    and mem: "heap s b = Some bs" "op_fits (op_of e) bs"
  shows "ring_inv live (owned_insert (sqe_user_data e) d (entered r' (heap s) s))"
proof -
  let ?u = "sqe_user_data e"
  let ?t = "owned_insert ?u d (entered r' (heap s) s)"
  have none: "owned_data (ring s) ?u = None" and nolive: "with_ud ?u (live r) = {#}"
    and lt: "?u < user_data_counter (ring s)"
    using unused open_ring by (simp_all add: unused_ud_def)
  have ids: "ids_ok (user_data_counter (ring s)) (owned_data (ring s)) (live r)"
    and cov: "\<forall>e \<in># live r. covered (owned_data (ring s)) (heap s) e"
    and ok: "mem_ok s"
    using inv open_ring by (simp_all add: ring_inv_def)
  have own: "owned_data (ring ?t) = (owned_data (ring s))(?u \<mapsto> d)"
    and hp: "heap ?t = heap s" and bk: "brk ?t = brk s"
    and cnt: "user_data_counter (ring ?t) = user_data_counter (ring s)"
    and lv: "ring_live live ?t = add_mset e (live r)"
    using none pushed
    by (simp_all add: owned_insert_def free_blocks_def entered_def ring_live_def
        restrict_map_def)
  have mem_t: "mem_ok ?t"
  proof (rule mem_ok_insert [OF ok blk(3) own blk(2) hp bk])
    show "b \<in> dom (heap s)" using mem(1) by blast
  qed
  have ne: "sqe_user_data e' \<noteq> ?u" if "e' \<in># live r" for e'
    using nolive that by (simp add: with_ud_empty_iff)
  have ids_t: "ids_ok (user_data_counter (ring s)) (owned_data (ring ?t)) (add_mset e (live r))"
    unfolding own using ids lt nolive by (rule ids_ok_add)
  have "covered (owned_data (ring ?t)) (heap ?t) e'" if "e' \<in># live r" for e'
    unfolding own hp using cov [rule_format, OF that]
    by (rule covered_cong) (simp_all add: ne [OF that])
  moreover have "covered (owned_data (ring ?t)) (heap ?t) e"
    unfolding own hp covered_def using blk(1,2) mem by simp
  ultimately show ?thesis
    using mem_t ids_t unfolding ring_inv_def cnt lv by auto
qed

text \<open>What \<open>autosubmit\<close> leaves behind on an open ring.\<close>

lemma autosubmit_cases:
  assumes laws: "uring_laws (env_ring E) live" and open_ring: "the_io_uring (ring s) = Some r"
    and run: "autosubmit E e s = (x, t)"
  obtains r1 m' where "enter_law live r (heap s) r1 m'" "isl x" "t = entered r1 m' s"
  | r1 r' m' where "enter_law live r (heap s) r1 m'" "x = Inr ()"
      "live r' = add_mset e (live r1)" "t = entered r' m' s"
proof -
  obtain y r' m' where loop:
    "autosubmit_loop (env_ring E) e (autosubmit_on (ring s)) False r (heap s) = (y, r', m')"
    by (metis prod_cases3)
  from autosubmit_loop_cases [OF laws loop] obtain r1 where
    r1: "enter_law live r (heap s) r1 m'" "if isl y then r' = r1 else live r' = add_mset e (live r1)"
    by blast
  have xt: "x = y" "t = entered r' m' s"
    using run open_ring loop by (simp_all add: autosubmit_def entered_def)
  show ?thesis
  proof (cases "isl y")
    case True
    with r1 xt that(1) show ?thesis by simp
  next
    case False
    then have "y = Inr ()" by (cases y) auto
    with r1 xt that(2) show ?thesis by simp
  qed
qed

text \<open>
  The common shape of the submissions with owned data: the data is copied to the heap, the entry
  with its pointer is pushed, and the block goes into the table; if the push fails, the copy is
  dropped.
\<close>

text \<open>A block about to be handed out is not yet a target of the kernel.\<close>

lemma fresh_unwritten:
  assumes "ring_inv live s"
  shows "brk s \<notin> writes_of (ring_live live s)"
proof
  assume "brk s \<in> writes_of (ring_live live s)"
  then obtain e where e: "e \<in># ring_live live s" "brk s \<in> sqe_blocks e"
    using op_writes_subset by (force simp: writes_of_def sqe_blocks_def)
  have "mem_ok s" "covered (owned_data (ring s)) (heap s) e"
    using assms e(1) by (simp_all add: ring_inv_def)
  with covered_owned e(2) owned_allocated mem_ok_fresh show False by blast
qed

lemma unused_entered:
  assumes "unused_ud live ud s" "the_io_uring (ring s) = Some r" "enter_law live r m r' m'"
  shows "unused_ud live ud (entered r' m' s)"
proof -
  have "live r' \<subseteq># live r" using assms(3) by (simp add: enter_law_def)
  from with_ud_mono [OF this, of ud] assms(1,2) show ?thesis by (simp add: unused_ud_def)
qed

lemma ring_inv_submit_owned:
  assumes laws: "uring_laws (env_ring E) live" and inv: "ring_inv live s"
    and unused: "unused_ud live ud s"
    and entry: "\<And>b. sqe_user_data (entry b) = ud" "\<And>b. sqe_blocks (entry b) = {b}"
      "\<And>b. op_fits (op_of (entry b)) bs"
    and own: "\<And>b. owned_blocks (d b) = [b]"
  shows "ring_inv live (snd (bindP (alloc bs) (\<lambda>b.
           bindP (or_drop b (autosubmit E (entry b))) (\<lambda>_. modP (owned_insert ud (d b)))) s))"
proof -
  let ?b = "brk s"
  define s1 where "s1 = snd (alloc bs s)"
  have al: "alloc bs s = (Inr ?b, s1)" by (simp add: s1_def alloc_def)
  have inv1: "ring_inv live s1" unfolding s1_def using inv by (rule ring_inv_alloc)
  have ok: "mem_ok s" and ok1: "mem_ok s1" using inv inv1 by (simp_all add: ring_inv_def)
  have nown: "\<not> owned_somewhere s ?b"
    using owned_allocated [OF ok] mem_ok_fresh [OF ok] by blast
  have nown1: "\<not> owned_somewhere s1 ?b"
    using nown by (simp add: owned_somewhere_def s1_def alloc_def)
  have hp1: "heap s1 ?b = Some bs" by (simp add: s1_def alloc_def)
  obtain x t where au: "autosubmit E (entry ?b) s1 = (x, t)" by (metis prod.exhaust)
  show ?thesis
  proof (cases "the_io_uring (ring s1)")
    case None
    then have "x = Inl (ValueError RingClosed)" "t = s1" using au by (simp_all add: autosubmit_def)
    with al au ring_inv_free [OF inv1 nown1] show ?thesis
      by (simp add: bindP_def or_drop_def)
  next
    case (Some r)
    from laws Some au show ?thesis
    proof (cases rule: autosubmit_cases)
      case (1 r1 m')
      then obtain e where x: "x = Inl e" by (cases x) auto
      have "ring_inv live t" unfolding 1(3) using inv1 Some 1(1) by (rule ring_inv_entered)
      moreover have "\<not> owned_somewhere t ?b" using nown1 by (simp add: owned_somewhere_def 1(3))
      ultimately have "ring_inv live (free_blocks [?b] t)" by (rule ring_inv_free)
      with al au x show ?thesis by (simp add: bindP_def or_drop_def)
    next
      case (2 r1 r' m')
      let ?s2 = "entered r1 m' s1"
      have inv2: "ring_inv live ?s2" using inv1 Some 2(1) by (rule ring_inv_entered)
      have "?b \<notin> writes_of (live r)" using fresh_unwritten [OF inv] Some by (simp add: s1_def alloc_def)
      with 2(1) hp1 have hp2: "heap ?s2 ?b = Some bs" by (simp add: enter_law_def mem_frame_def)
      have "unused_ud live ud s1" using unused by (simp add: unused_ud_def ring_live_def s1_def alloc_def)
      from unused_entered [OF this Some 2(1)]
      have un2: "unused_ud live (sqe_user_data (entry ?b)) ?s2" by (simp add: entry)
      have nown2: "\<not> owned_somewhere ?s2 ?b" using nown1 by (simp add: owned_somewhere_def)
      have "ring_inv live (owned_insert ud (d ?b) (entered r' (heap ?s2) ?s2))"
        using ring_inv_join [OF inv2 _ 2(3) un2 entry(2) own nown2 hp2 entry(3)]
        by (simp add: entry)
      moreover have "entered r' (heap ?s2) ?s2 = t" by (simp add: entered_def 2(4))
      ultimately show ?thesis using al au 2(2) by (simp add: bindP_def or_drop_def)
    qed
  qed
qed

text \<open>A submission without memory.\<close>

lemma ring_inv_submit_plain:
  assumes laws: "uring_laws (env_ring E) live" and inv: "ring_inv live s"
    and unused: "unused_ud live (sqe_user_data e) s" and none: "sqe_blocks e = {}"
  shows "ring_inv live (snd (autosubmit E e s))"
proof (cases "the_io_uring (ring s)")
  case None
  with inv show ?thesis by (simp add: autosubmit_def)
next
  case (Some r)
  obtain x t where au: "autosubmit E e s = (x, t)" by (metis prod.exhaust)
  from laws Some au show ?thesis
  proof (cases rule: autosubmit_cases)
    case (1 r1 m')
    with au ring_inv_entered [OF inv Some] show ?thesis by simp
  next
    case (2 r1 r' m')
    let ?u = "sqe_user_data e" and ?s2 = "entered r1 m' s"
    have inv2: "ring_inv live ?s2" using inv Some 2(1) by (rule ring_inv_entered)
    have sub: "live r1 \<subseteq># live r" using 2(1) by (simp add: enter_law_def)
    have "with_ud ?u (live r) = {#}" using unused Some by (simp add: unused_ud_def)
    with with_ud_mono [OF sub, of ?u] have un: "with_ud ?u (live r1) = {#}" by simp
    have "ids_ok (user_data_counter (ring s)) (owned_data (ring s)) (add_mset e (live r1))"
      using inv2 un unused none
      by (auto simp: ring_inv_def ids_ok_def unused_ud_def with_ud_empty_iff)
    moreover have "covered (owned_data (ring s)) m' e" using none by (simp add: covered_def)
    ultimately show ?thesis
      using inv2 2(3,4) au by (auto simp: ring_inv_def mem_ok_def)
  qed
qed

text \<open>The internal timeout.\<close>

lemma ring_inv_push_timeout:
  assumes laws: "uring_laws (env_ring E) live" and inv: "ring_inv live s"
  shows "ring_inv live (snd (push_timeout E (timeout_sqe E sec nsec) s))"
proof (cases "the_io_uring (ring s)")
  case None
  with inv show ?thesis by (simp add: push_timeout_def)
next
  case (Some r)
  let ?e = "timeout_sqe E sec nsec"
  show ?thesis
  proof (cases "ur_push (env_ring E) ?e r")
    case None
    with inv Some show ?thesis by (simp add: push_timeout_def)
  next
    case push: (Some r')
    let ?c = "user_data_counter (ring s)"
    have live': "live r' = add_mset ?e (live r)" using uring_lawsD(2) [OF laws push] .
    have blk: "sqe_blocks ?e = {}" and ud: "sqe_user_data ?e = timeout_user_data"
      by (simp_all add: timeout_sqe_def sqe_blocks_def)
    have ids: "ids_ok ?c (owned_data (ring s)) (live r)"
      using inv Some by (simp add: ring_inv_def)
    then have "?c \<le> 2 ^ 63" by (simp add: ids_ok_def)
    then have "\<not> timeout_user_data < ?c"
      by (auto simp: timeout_user_data_def word_less_nat_alt word_le_nat_alt)
    then have "ids_ok ?c (owned_data (ring s)) (add_mset ?e (live r))"
      using ids blk ud unfolding ids_ok_def by auto
    moreover have "covered (owned_data (ring s)) (heap s) ?e" using blk by (simp add: covered_def)
    ultimately show ?thesis
      using inv Some push live' by (auto simp: push_timeout_def ring_inv_def mem_ok_def)
  qed
qed

lemma ring_inv_wait_with_timeout:
  assumes laws: "uring_laws (env_ring E) live" and inv: "ring_inv live s"
  shows "ring_inv live (snd (wait_with_timeout E sec nsec s))"
proof -
  have "keeps (\<lambda>s t. ring_inv live s \<longrightarrow> ring_inv live t) (wait_with_timeout E sec nsec)"
    unfolding wait_with_timeout_def
    by (intro keeps_intros)
      (auto simp: keeps_def reflp_def transp_def
        intro: ring_inv_submit [OF laws] ring_inv_push_timeout [OF laws] ring_inv_wait_cqes [OF laws])
  with inv show ?thesis by (auto dest: keepsD)
qed

lemma ring_inv_create:
  assumes laws: "uring_laws (env_ring E) live"
    and new: "create_io_ring E entries cq idle single auto = Inr g"
    and heap: "\<forall>b \<in> dom (heap s). b < brk s"
  shows "ring_inv live (s\<lparr>ring := g\<rparr>)"
proof -
  from new obtain r cfg where g: "the_io_uring g = Some r" "owned_data g = Map.empty"
      "user_data_counter g = 0" and r: "ur_build (env_ring E) cfg = Inr r"
    by (auto simp: create_io_ring_def Let_def split: if_splits sum.splits)
  from uring_lawsD(1) [OF laws r] have "live r = {#}" .
  with g heap show ?thesis by (simp add: ring_inv_def ring_live_def mem_ok_def ids_ok_def)
qed

end
