(* ===== verification/Ring_Reap.thy ===== *)
theory Ring_Reap
  imports Ring_Inv
begin

text \<open>
  Reaping completions: what \<open>get_completion_entries\<close> returns, that it keeps the invariant, and
  when its loop ends. Also the operations built from the earlier ones: \<open>wait_with_timeout\<close> and
  \<open>create_io_ring\<close>.
\<close>

section \<open>The loop over the completion queue\<close>

lemma enter_law_trans:
  assumes "enter_law live r m r1 m1" "enter_law live r1 m1 r2 m2"
  shows "enter_law live r m r2 m2"
proof -
  have "writes_of (live r1) \<subseteq> writes_of (live r)"
    using assms(1) by (intro writes_of_mono) (simp add: enter_law_def)
  with assms mem_frame_trans show ?thesis
    unfolding enter_law_def by (meson subset_mset.order_trans)
qed

text \<open>A completion that was read leaves no live operation under its \<open>user_data\<close>.\<close>

definition ended :: "('r \<Rightarrow> sqe multiset) \<Rightarrow> 'r \<Rightarrow> 'r \<Rightarrow> cqe \<Rightarrow> bool" where
  "ended live r r' c \<longleftrightarrow>
     (size (with_ud (cqe_user_data c) (live r)) \<le> 1 \<longrightarrow> with_ud (cqe_user_data c) (live r') = {#})"

lemma ended_mono:
  assumes "ended live r1 r' c" "live r1 \<subseteq># live r"
  shows "ended live r r' c"
  using assms(1) size_mset_mono [OF with_ud_mono [OF assms(2), of "cqe_user_data c"]]
  by (simp add: ended_def)

lemma ended_step:
  assumes "completion_law U live r m es r1 m1" "c \<in> set es" "live r' \<subseteq># live (ur_advance U es r1)"
  shows "ended live r r' c"
  unfolding ended_def
proof
  assume "size (with_ud (cqe_user_data c) (live r)) \<le> 1"
  with assms(1,2) have "with_ud (cqe_user_data c) (live (ur_advance U es r1)) = {#}"
    by (fastforce simp: completion_law_def)
  with with_ud_mono [OF assms(3), of "cqe_user_data c"]
  show "with_ud (cqe_user_data c) (live r') = {#}" by simp
qed

lemma drain_spec:
  assumes laws: "uring_laws U live" and run: "drain U r m acc = Some (es, r', m')"
  shows "\<exists>new. es = acc @ new \<and> enter_law live r m r' m' \<and> (\<forall>c \<in> set new. ended live r r' c)"
proof -
  let ?P = "\<lambda>r m acc (es, r', m').
    \<exists>new. es = acc @ new \<and> enter_law live r m r' m' \<and> (\<forall>c \<in> set new. ended live r r' c)"
  have "?P r m acc (es, r', m')"
  proof (rule drain.raw_induct [where P = "\<lambda>U' r m acc x. U' = U \<longrightarrow> ?P r m acc x",
        rule_format, OF _ run refl])
    fix f U' r m acc x
    assume IH: "\<And>U' r m acc x. f U' r m acc = Some x \<Longrightarrow> U' = U \<Longrightarrow> ?P r m acc x"
      and eq: "(case ur_completion U' r m of (es, r', m') \<Rightarrow>
          if es = [] then Some (acc, r', m')
          else case ur_sync U' (ur_advance U' es r') m' of (r'', m'') \<Rightarrow> f U' r'' m'' (acc @ es)) = Some x"
      and U': "U' = U"
    obtain es1 r1 m1 where c: "ur_completion U r m = (es1, r1, m1)" by (metis prod_cases3)
    from uring_lawsD(5) [OF laws c] have law: "completion_law U live r m es1 r1 m1" .
    then have e1: "enter_law live r m r1 m1" by (simp add: completion_law_def)
    show "?P r m acc x"
    proof (cases "es1 = []")
      case True
      with eq c U' e1 show ?thesis by auto
    next
      case False
      obtain r2 m2 where s: "ur_sync U (ur_advance U es1 r1) m1 = (r2, m2)" by (metis prod.exhaust)
      from uring_lawsD(6) [OF laws s] have e2: "enter_law live (ur_advance U es1 r1) m1 r2 m2" .
      have ea: "enter_law live r1 m1 (ur_advance U es1 r1) m1"
        using law by (simp add: completion_law_def enter_law_def)
      have e02: "enter_law live r m r2 m2"
        using enter_law_trans [OF enter_law_trans [OF e1 ea] e2] .
      have "f U r2 m2 (acc @ es1) = Some x" using eq c s U' False by simp
      from IH [OF this refl] obtain es' r' m' new where x: "x = (es', r', m')" "es' = (acc @ es1) @ new"
        and e': "enter_law live r2 m2 r' m'" and en: "\<forall>c \<in> set new. ended live r2 r' c"
        by (cases x) auto
      have sub2: "live r2 \<subseteq># live r" and sub': "live r' \<subseteq># live (ur_advance U es1 r1)"
        using e02 e2 e' by (auto simp: enter_law_def intro: subset_mset.order_trans)
      have "ended live r r' c" if "c \<in> set (es1 @ new)" for c
        using that ended_step [OF law _ sub'] en ended_mono [where live = live, OF _ sub2] by auto
      with x enter_law_trans [OF e02 e'] show ?thesis by auto
    qed
  qed
  then show ?thesis by simp
qed

text \<open>
  The loop returns when the kernel posts finitely much: a measure of what is still to come goes
  down with every round that read something.
\<close>

definition posts_finitely :: "'r uring_api \<Rightarrow> ('r \<Rightarrow> nat) \<Rightarrow> bool" where
  "posts_finitely U todo \<longleftrightarrow> (\<forall>r m es r' m' r'' m''. ur_completion U r m = (es, r', m') \<longrightarrow>
     es \<noteq> [] \<longrightarrow> ur_sync U (ur_advance U es r') m' = (r'', m'') \<longrightarrow> todo r'' < todo r)"

lemma drain_returns:
  assumes "posts_finitely U todo"
  shows "\<exists>x. drain U r m acc = Some x"
proof (induction "todo r" arbitrary: r m acc rule: less_induct)
  case less
  obtain es r1 m1 where c: "ur_completion U r m = (es, r1, m1)" by (metis prod_cases3)
  show ?case
  proof (cases "es = []")
    case True
    with c show ?thesis by (simp add: drain.simps [of U r m acc])
  next
    case False
    obtain r2 m2 where s: "ur_sync U (ur_advance U es r1) m1 = (r2, m2)" by (metis prod.exhaust)
    have "todo r2 < todo r" using assms c False s unfolding posts_finitely_def by blast
    from less [OF this] False c s show ?thesis
      by (simp add: drain.simps [of U r m acc])
  qed
qed

section \<open>Taking owned data out of the table\<close>

lemma reap_entry_fields:
  "ev_user_data (fst (reap_entry c s)) = cqe_user_data c"
  "ev_result (fst (reap_entry c s)) = cqe_result c"
  "owned_data (ring (snd (reap_entry c s))) = (owned_data (ring s))(cqe_user_data c := None)"
  "the_io_uring (ring (snd (reap_entry c s))) = the_io_uring (ring s)"
  "user_data_counter (ring (snd (reap_entry c s))) = user_data_counter (ring s)"
  "brk (snd (reap_entry c s)) = brk s"
  by (auto simp: reap_entry_def Let_def free_blocks_def fun_eq_iff
      split: option.splits owned_data.splits)

lemma heap_reap_entry:
  "heap (snd (reap_entry c s)) = heap s |`
     (- (case owned_data (ring s) (cqe_user_data c) of None \<Rightarrow> {} | Some d \<Rightarrow> set (owned_blocks d)))"
  by (auto simp: reap_entry_def Let_def free_blocks_def split: option.splits owned_data.splits)

lemma mem_ok_disjoint:
  assumes "mem_ok s" "owned_data (ring s) u = Some d" "owned_data (ring s) v = Some d'" "u \<noteq> v"
  shows "set (owned_blocks d) \<inter> set (owned_blocks d') = {}"
  using assms unfolding mem_ok_def by blast

lemma mem_ok_reap_entry:
  assumes ok: "mem_ok s"
  shows "mem_ok (snd (reap_entry c s))"
proof -
  let ?u = "cqe_user_data c" and ?t = "snd (reap_entry c s)"
  let ?B = "case owned_data (ring s) ?u of None \<Rightarrow> {} | Some d \<Rightarrow> set (owned_blocks d)"
  have hp: "heap ?t = heap s |` (- ?B)" by (rule heap_reap_entry)
  have own: "owned_data (ring ?t) = (owned_data (ring s))(?u := None)" by (simp add: reap_entry_fields)
  have dis: "set (owned_blocks d) \<inter> ?B = {}" if "owned_data (ring s) v = Some d" "v \<noteq> ?u" for v d
    using ok that unfolding mem_ok_def by (auto split: option.splits)
  have sub: "set (owned_blocks d) \<subseteq> dom (heap s)" if "owned_data (ring s) v = Some d" for v d
    using ok that by (auto simp: mem_ok_def)
  have "set (owned_blocks d) \<subseteq> dom (heap ?t)" if "owned_data (ring ?t) v = Some d" for v d
    using that dis [of v d] sub [of v d] unfolding own hp by (auto split: if_splits)
  moreover have "set (owned_blocks d) \<inter> set (owned_blocks d') = {}"
    if "owned_data (ring ?t) u = Some d" "owned_data (ring ?t) v = Some d'" "u \<noteq> v" for u v d d'
    using ok that unfolding own mem_ok_def by (auto split: if_splits)
  moreover have "\<forall>b \<in> dom (heap ?t). b < brk ?t"
    using ok unfolding hp mem_ok_def by (simp add: reap_entry_fields)
  ultimately show ?thesis unfolding mem_ok_def by blast
qed

lemma ring_inv_reap_entry:
  assumes inv: "ring_inv live s"
    and dead: "\<And>e. e \<in># ring_live live s \<Longrightarrow> sqe_user_data e = cqe_user_data c \<Longrightarrow> sqe_blocks e = {}"
  shows "ring_inv live (snd (reap_entry c s))"
proof -
  let ?u = "cqe_user_data c" and ?t = "snd (reap_entry c s)"
  have ok: "mem_ok s" using inv by (simp add: ring_inv_def)
  have own: "owned_data (ring ?t) = (owned_data (ring s))(?u := None)" by (simp add: reap_entry_fields)
  have live: "ring_live live ?t = ring_live live s" by (simp add: ring_live_def reap_entry_fields)
  have "ids_ok (user_data_counter (ring ?t)) (owned_data (ring ?t)) (ring_live live s)"
    using inv unfolding own by (auto simp: ring_inv_def ids_ok_def reap_entry_fields)
  moreover have "covered (owned_data (ring ?t)) (heap ?t) e" if e: "e \<in># ring_live live s" for e
  proof (rule covered_cong)
    show cov: "covered (owned_data (ring s)) (heap s) e"
      using inv e by (simp add: ring_inv_def)
    show "owned_data (ring ?t) (sqe_user_data e) = owned_data (ring s) (sqe_user_data e)"
      if "sqe_blocks e \<noteq> {}"
      using dead [OF e] that by (auto simp: own)
    show "heap ?t b = heap s b" if b: "b \<in> sqe_blocks e" for b
    proof -
      from cov b obtain d where d: "owned_data (ring s) (sqe_user_data e) = Some d"
        "b \<in> set (owned_blocks d)" by (auto simp: covered_def)
      have "sqe_user_data e \<noteq> ?u" using dead [OF e] b by auto
      with mem_ok_disjoint [OF ok d(1)] d(2)
      have "b \<notin> (case owned_data (ring s) ?u of None \<Rightarrow> {} | Some d \<Rightarrow> set (owned_blocks d))"
        by (auto split: option.splits)
      then show ?thesis by (simp add: heap_reap_entry restrict_map_def)
    qed
  qed
  ultimately show ?thesis
    using mem_ok_reap_entry [OF ok] live by (simp add: ring_inv_def)
qed

lemma reap_entries_Cons:
  "fst (reap_entries (c # cs) s) =
     fst (reap_entry c s) # fst (reap_entries cs (snd (reap_entry c s)))"
  "snd (reap_entries (c # cs) s) = snd (reap_entries cs (snd (reap_entry c s)))"
  by (simp_all add: case_prod_beta)

lemma reap_entries_fields:
  "user_data_counter (ring (snd (reap_entries cs s))) = user_data_counter (ring s)"
  "the_io_uring (ring (snd (reap_entries cs s))) = the_io_uring (ring s)"
  "owned_data (ring (snd (reap_entries cs s))) = owned_data (ring s) |` (- cqe_user_data ` set cs)"
proof (induction cs arbitrary: s)
  case Nil
  case 1 show ?case by simp
  case 2 show ?case by simp
  case 3 show ?case by (simp add: restrict_map_def)
next
  case (Cons c cs)
  case 1 show ?case by (simp only: reap_entries_Cons Cons.IH reap_entry_fields)
  case 2 show ?case by (simp only: reap_entries_Cons Cons.IH reap_entry_fields)
  case 3 show ?case
    unfolding reap_entries_Cons Cons.IH reap_entry_fields
    by (auto simp: restrict_map_def fun_eq_iff)
qed

lemma ring_inv_reap_entries:
  assumes "ring_inv live s"
    and "\<And>c e. c \<in> set cs \<Longrightarrow> e \<in># ring_live live s \<Longrightarrow> sqe_user_data e = cqe_user_data c \<Longrightarrow>
           sqe_blocks e = {}"
  shows "ring_inv live (snd (reap_entries cs s))"
  using assms
proof (induction cs arbitrary: s)
  case Nil
  then show ?case by simp
next
  case (Cons c cs)
  have "ring_inv live (snd (reap_entry c s))"
    using Cons.prems by (intro ring_inv_reap_entry) auto
  moreover have "ring_live live (snd (reap_entry c s)) = ring_live live s"
    by (simp add: ring_live_def reap_entry_fields)
  ultimately have "ring_inv live (snd (reap_entries cs (snd (reap_entry c s))))"
    using Cons.prems(2) by (intro Cons.IH) auto
  then show ?case by (simp only: reap_entries_Cons)
qed

lemma get_completion_entries_open:
  assumes "the_io_uring (ring s) = Some r"
  shows "get_completion_entries E s =
    map_option (\<lambda>(es, r', m'). (Inr (fst (reap_entries es (entered r' m' s))),
        snd (reap_entries es (entered r' m' s))))
      (drain (env_ring E) r (heap s) [])"
  using assms by (simp add: get_completion_entries_def entered_def case_prod_beta)

lemma get_completion_entriesE:
  assumes "get_completion_entries E s = Some (x, t)"
  obtains (closed) "the_io_uring (ring s) = None" "x = Inl (ValueError RingClosed)" "t = s"
  | (reaped) r es r' m' where "the_io_uring (ring s) = Some r"
      "drain (env_ring E) r (heap s) [] = Some (es, r', m')"
      "x = Inr (fst (reap_entries es (entered r' m' s)))"
      "t = snd (reap_entries es (entered r' m' s))"
proof (cases "the_io_uring (ring s)")
  case None
  with assms have "x = Inl (ValueError RingClosed)" "t = s"
    by (simp_all add: get_completion_entries_def)
  with None show ?thesis by (rule closed)
next
  case (Some r)
  note run = assms [unfolded get_completion_entries_open [OF Some]]
  then obtain d where "drain (env_ring E) r (heap s) [] = Some d"
    by (cases "drain (env_ring E) r (heap s) []") simp_all
  then obtain es r' m' where dr: "drain (env_ring E) r (heap s) [] = Some (es, r', m')"
    by (cases d) simp
  from run have "x = Inr (fst (reap_entries es (entered r' m' s)))"
    "t = snd (reap_entries es (entered r' m' s))"
    by (simp_all add: dr)
  with Some dr show ?thesis by (rule reaped)
qed

lemma ring_inv_get_completion_entries:
  assumes laws: "uring_laws (env_ring E) live" and inv: "ring_inv live s"
    and run: "get_completion_entries E s = Some (x, t)"
  shows "ring_inv live t"
proof (cases "the_io_uring (ring s)")
  case None
  with run inv show ?thesis by (simp add: get_completion_entries_def)
next
  case (Some r)
  with run obtain es r' m' where dr: "drain (env_ring E) r (heap s) [] = Some (es, r', m')"
    and t: "t = snd (reap_entries es (entered r' m' s))"
    by (auto simp: get_completion_entries_open)
  from drain_spec [OF laws dr] have enter: "enter_law live r (heap s) r' m'"
    and ended: "\<forall>c \<in> set es. ended live r r' c" by auto
  have inv': "ring_inv live (entered r' m' s)" using inv Some enter by (rule ring_inv_entered)
  have "sqe_blocks e = {}"
    if "c \<in> set es" "e \<in># live r'" "sqe_user_data e = cqe_user_data c" for c e
  proof -
    have "e \<in># live r" using that(2) enter by (auto simp: enter_law_def dest: mset_subset_eqD)
    moreover have "ids_ok (user_data_counter (ring s)) (owned_data (ring s)) (live r)"
      using inv Some by (simp add: ring_inv_def)
    moreover have "with_ud (cqe_user_data c) (live r') \<noteq> {#}"
      using that(2,3) by (auto simp: with_ud_empty_iff)
    with ended that(1) have "\<not> size (with_ud (cqe_user_data c) (live r)) \<le> 1"
      by (auto simp: ended_def)
    ultimately show ?thesis using that(3) by (auto simp: ids_ok_def)
  qed
  then show ?thesis unfolding t by (intro ring_inv_reap_entries [OF inv']) auto
qed

end
