(* ===== verification/Sqe_Flags.thy ===== *)
theory Sqe_Flags
  imports Sample_Env
begin

text \<open>
  The flag words of submissions: \<^verbatim>\<open>src/flags.rs\<close> and its wrapper \<open>make_sqe_flags\<close> of
  \<^verbatim>\<open>helpers.py\<close>. The values of the flags belong to the crate and are taken from the
  environment.
\<close>

definition add_flag :: "flags_api \<Rightarrow> bool \<Rightarrow> u8 \<Rightarrow> u8 \<Rightarrow> u8" where
  "add_flag F b flag flags = (if b then fl_union F flags flag else flags)"

definition make_uring_flags ::
  "flags_api \<Rightarrow> bool \<Rightarrow> bool \<Rightarrow> bool \<Rightarrow> bool \<Rightarrow> bool \<Rightarrow> bool \<Rightarrow> bool \<Rightarrow> u8" where
  "make_uring_flags F fixed_file io_drain io_link io_hardlink io_async buffer_select skip_success =
     (let flags = fl_empty F;
          flags = add_flag F fixed_file (fl_FIXED_FILE F) flags;
          flags = add_flag F io_drain (fl_IO_DRAIN F) flags;
          flags = add_flag F io_link (fl_IO_LINK F) flags;
          flags = add_flag F io_hardlink (fl_IO_HARDLINK F) flags;
          flags = add_flag F io_async (fl_ASYNC F) flags;
          flags = add_flag F buffer_select (fl_BUFFER_SELECT F) flags;
          flags = add_flag F skip_success (fl_SKIP_SUCCESS F) flags
      in flags)"

text \<open>The Python wrapper passes its seven booleans on and sees the \<open>u8\<close> as an integer.\<close>

definition make_sqe_flags ::
  "flags_api \<Rightarrow> bool \<Rightarrow> bool \<Rightarrow> bool \<Rightarrow> bool \<Rightarrow> bool \<Rightarrow> bool \<Rightarrow> bool \<Rightarrow> int" where
  "make_sqe_flags F fixed_file io_drain io_link io_hardlink io_async buffer_select skip_success =
     uint (make_uring_flags F fixed_file io_drain io_link io_hardlink io_async buffer_select
             skip_success)"

text \<open>The parse every submission makes of its flag word, and its check for \<open>SKIP_SUCCESS\<close>.\<close>

definition parse_flags :: "flags_api \<Rightarrow> u8 \<Rightarrow> u8" where
  "parse_flags F b = fl_from_bits_truncate F b"

definition skips_success :: "flags_api \<Rightarrow> u8 \<Rightarrow> bool" where
  "skips_success F b \<longleftrightarrow> fl_contains F (parse_flags F b) (fl_SKIP_SUCCESS F)"

section \<open>Disjoint single flags\<close>

lemma flags_lawsD:
  assumes "flags_laws F"
  shows "fl_empty F = 0" "fl_union F a b = a OR b" "fl_contains F a b \<longleftrightarrow> a AND b = b"
    "fl_from_bits_truncate F a = a AND foldr (OR) (all_flags F) 0"
  using assms by (simp_all add: flags_laws_def)

lemma flags_disjoint:
  assumes "flags_laws F"
  shows
    "fl_FIXED_FILE F AND fl_IO_DRAIN F = 0"
    "fl_FIXED_FILE F AND fl_IO_LINK F = 0"
    "fl_FIXED_FILE F AND fl_IO_HARDLINK F = 0"
    "fl_FIXED_FILE F AND fl_ASYNC F = 0"
    "fl_FIXED_FILE F AND fl_BUFFER_SELECT F = 0"
    "fl_FIXED_FILE F AND fl_SKIP_SUCCESS F = 0"
    "fl_IO_DRAIN F AND fl_IO_LINK F = 0"
    "fl_IO_DRAIN F AND fl_IO_HARDLINK F = 0"
    "fl_IO_DRAIN F AND fl_ASYNC F = 0"
    "fl_IO_DRAIN F AND fl_BUFFER_SELECT F = 0"
    "fl_IO_DRAIN F AND fl_SKIP_SUCCESS F = 0"
    "fl_IO_LINK F AND fl_IO_HARDLINK F = 0"
    "fl_IO_LINK F AND fl_ASYNC F = 0"
    "fl_IO_LINK F AND fl_BUFFER_SELECT F = 0"
    "fl_IO_LINK F AND fl_SKIP_SUCCESS F = 0"
    "fl_IO_HARDLINK F AND fl_ASYNC F = 0"
    "fl_IO_HARDLINK F AND fl_BUFFER_SELECT F = 0"
    "fl_IO_HARDLINK F AND fl_SKIP_SUCCESS F = 0"
    "fl_ASYNC F AND fl_BUFFER_SELECT F = 0"
    "fl_ASYNC F AND fl_SKIP_SUCCESS F = 0"
    "fl_BUFFER_SELECT F AND fl_SKIP_SUCCESS F = 0"
  using assms by (simp_all add: flags_laws_def all_flags_def)

lemma flags_nonzero: "flags_laws F \<Longrightarrow> x \<in> set (all_flags F) \<Longrightarrow> x \<noteq> 0"
  by (auto simp: flags_laws_def)

text \<open>What is left of a chain of conditional unions when only one flag is looked at.\<close>

lemma and_add_flag:
  assumes "flags_laws F"
  shows "add_flag F b f flags AND g = (if b then (flags AND g) OR (f AND g) else flags AND g)"
  using assms by (simp add: add_flag_def flags_lawsD bit.conj_disj_distrib2)

lemma truncate_and_flag:
  assumes "flags_laws F" "g \<in> set (all_flags F)"
  shows "fl_from_bits_truncate F a AND g = a AND g"
proof -
  have "foldr (OR) xs 0 AND g = g" if "g \<in> set xs" for xs :: "u8 list"
    using that
    by (induction xs) (auto simp: bit_eq_iff bit_and_iff bit_or_iff)
  with assms show ?thesis by (simp add: flags_lawsD and.assoc)
qed

lemma flag_in_all [simp]:
  "fl_FIXED_FILE F \<in> set (all_flags F)"
  "fl_IO_DRAIN F \<in> set (all_flags F)"
  "fl_IO_LINK F \<in> set (all_flags F)"
  "fl_IO_HARDLINK F \<in> set (all_flags F)"
  "fl_ASYNC F \<in> set (all_flags F)"
  "fl_BUFFER_SELECT F \<in> set (all_flags F)"
  "fl_SKIP_SUCCESS F \<in> set (all_flags F)"
  by (simp_all add: all_flags_def)

lemma contains_parsed:
  assumes "flags_laws F" "g \<in> set (all_flags F)"
  shows "fl_contains F (parse_flags F a) g \<longleftrightarrow> a AND g = g"
  using assms by (simp add: parse_flags_def flags_lawsD(3) truncate_and_flag)

lemma make_sqe_flags_parsed:
  assumes "flags_laws F" and "pyo3_laws P"
  shows "\<exists>w. py_u8 P (make_sqe_flags F b1 b2 b3 b4 b5 b6 b7) = Inr w \<and>
           map (fl_contains F (parse_flags F w)) (all_flags F) = [b1, b2, b3, b4, b5, b6, b7]"
proof -
  let ?w = "make_uring_flags F b1 b2 b3 b4 b5 b6 b7"
  note dis = flags_disjoint [OF assms(1)]
  note dis' = dis [THEN trans [OF and.commute]]
  have nz: "x \<noteq> 0" if "x \<in> set (all_flags F)" for x
    using assms(1) that by (rule flags_nonzero)
  have nz': "0 \<noteq> x" if "x \<in> set (all_flags F)" for x
    using nz [OF that] by simp
  have "fl_contains F (parse_flags F ?w) g \<longleftrightarrow> ?w AND g = g" if "g \<in> set (all_flags F)" for g
    using assms(1) that by (rule contains_parsed)
  then have "map (fl_contains F (parse_flags F ?w)) (all_flags F) =
      map (\<lambda>g. ?w AND g = g) (all_flags F)" by simp
  also have "\<dots> = [b1, b2, b3, b4, b5, b6, b7]"
    by (simp add: all_flags_def make_uring_flags_def Let_def and_add_flag [OF assms(1)]
        flags_lawsD(1) [OF assms(1)] dis dis' nz nz' cong: if_cong)
  finally show ?thesis
    using assms(2) uint_bounded [of ?w]
    by (simp add: make_sqe_flags_def pyo3_laws_def converts_unsigned_def)
qed

text \<open>What a submission sees of a word made with \<open>skip_success\<close>.\<close>

lemma made_flags_skip:
  assumes "flags_laws F" "pyo3_laws P"
    and "py_u8 P (make_sqe_flags F b1 b2 b3 b4 b5 b6 b7) = Inr w"
  shows "skips_success F w \<longleftrightarrow> b7"
  using make_sqe_flags_parsed [OF assms(1,2), of b1 b2 b3 b4 b5 b6 b7] assms(3)
  by (simp add: skips_success_def all_flags_def)

section \<open>Properties\<close>

text \<open>C37: the flag word made from seven booleans round-trips. Python's \<open>make_sqe_flags\<close>
  returns an integer that converts back to a \<open>u8\<close>, and parsing that word in a submission finds
  exactly the flags whose boolean was true, in order: none is lost, none is set by another.\<close>

theorem make_sqe_flags_roundtrip:
  assumes "flags_laws F" and "pyo3_laws P"
  shows "\<exists>w. py_u8 P (make_sqe_flags F b1 b2 b3 b4 b5 b6 b7) = Inr w \<and>
           map (fl_contains F (parse_flags F w)) (all_flags F) = [b1, b2, b3, b4, b5, b6, b7]"
  using assms by (rule make_sqe_flags_parsed)

theorem make_sqe_flags_roundtrip_witness:
  "\<exists>w. py_u8 sample_pyo3 (make_sqe_flags linux_flags True False True False True False True) = Inr w \<and>
      map (fl_contains linux_flags (parse_flags linux_flags w)) (all_flags linux_flags) =
        [True, False, True, False, True, False, True]"
  by (rule make_sqe_flags_roundtrip [OF linux_flags_laws sample_pyo3_laws])

end
