(* ===== verification/Ip_Addr.thy ===== *)
theory Ip_Addr
  imports Prelude
begin

text \<open>
  The addresses of \<open>prep_connect_v4\<close> and \<open>prep_connect_v6\<close> cross from Python to Rust as text:
  Python's \<open>str(address)\<close> on one side, \<open>from_str\<close> of \<open>Ipv4Addr\<close> and \<open>Ipv6Addr\<close> on the other.
  Both are parts of the two standard libraries. The parser is a state of remaining input;
  \<open>read_atomically\<close> gives the input back when its body fails, so a failed read is \<^term>\<open>None\<close>
  and the caller goes on with the input it had.
\<close>

section \<open>Numbers\<close>

definition to_digit :: "nat \<Rightarrow> char \<Rightarrow> nat option" where
  "to_digit radix c =
     (let n = of_char c;
          d = (if 48 \<le> n \<and> n \<le> 57 then Some (n - 48)
               else if 97 \<le> n \<and> n \<le> 122 then Some (n - 97 + 10)
               else if 65 \<le> n \<and> n \<le> 90 then Some (n - 65 + 10)
               else None)
      in case d of None \<Rightarrow> None | Some d \<Rightarrow> if d < radix then Some d else None)"

text \<open>Digit count, value and rest; more than \<open>maxd\<close> digits is a failure.\<close>

fun read_digits :: "nat \<Rightarrow> nat \<Rightarrow> nat \<Rightarrow> nat \<Rightarrow> string \<Rightarrow> (nat \<times> nat \<times> string) option" where
  "read_digits radix maxd count result [] = Some (count, result, [])"
| "read_digits radix maxd count result (c # cs) =
     (case to_digit radix c of
        None \<Rightarrow> Some (count, result, c # cs)
      | Some d \<Rightarrow>
          (if maxd < Suc count then None
           else read_digits radix maxd (Suc count) (result * radix + d) cs))"

definition read_number :: "nat \<Rightarrow> nat \<Rightarrow> nat \<Rightarrow> bool \<Rightarrow> string \<Rightarrow> (nat \<times> string) option" where
  "read_number radix maxd bound allow_zero_prefix s =
     (case read_digits radix maxd 0 0 s of
        None \<Rightarrow> None
      | Some (count, result, rest) \<Rightarrow>
          (if count = 0 then None
           else if \<not> allow_zero_prefix \<and> take 1 s = ''0'' \<and> 1 < count then None
           else if bound < result then None
           else Some (result, rest)))"

definition read_separator :: "char \<Rightarrow> nat \<Rightarrow> (string \<Rightarrow> 'a option) \<Rightarrow> string \<Rightarrow> 'a option" where
  "read_separator sep index inner s =
     (if 0 < index then (case s of [] \<Rightarrow> None | c # cs \<Rightarrow> if c = sep then inner cs else None)
      else inner s)"

section \<open>IPv4\<close>

fun read_octets :: "nat \<Rightarrow> nat \<Rightarrow> string \<Rightarrow> (nat list \<times> string) option" where
  "read_octets i 0 s = Some ([], s)"
| "read_octets i (Suc n) s =
     (case read_separator CHR ''.'' i (read_number 10 3 255 False) s of
        None \<Rightarrow> None
      | Some (octet, rest) \<Rightarrow>
          (case read_octets (Suc i) n rest of
             None \<Rightarrow> None
           | Some (octets, rest') \<Rightarrow> Some (octet # octets, rest')))"

definition read_ipv4_addr :: "string \<Rightarrow> (nat list \<times> string) option" where
  "read_ipv4_addr = read_octets 0 4"

definition ipv4_from_str :: "string \<Rightarrow> nat list option" where
  "ipv4_from_str s =
     (if 15 < length s then None
      else (case read_ipv4_addr s of Some (octets, []) \<Rightarrow> Some octets | _ \<Rightarrow> None))"

section \<open>IPv6\<close>

function read_groups :: "nat \<Rightarrow> nat \<Rightarrow> string \<Rightarrow> nat list \<times> bool \<times> string" where
  "read_groups limit i s =
     (if limit \<le> i then ([], False, s)
      else (case (if i < limit - 1 then read_separator CHR '':'' i read_ipv4_addr s else None) of
              Some (os, rest) \<Rightarrow> ([os ! 0 * 256 + os ! 1, os ! 2 * 256 + os ! 3], True, rest)
            | None \<Rightarrow>
                (case read_separator CHR '':'' i (read_number 16 4 65535 True) s of
                   None \<Rightarrow> ([], False, s)
                 | Some (g, rest) \<Rightarrow>
                     (case read_groups limit (Suc i) rest of (gs, v4, rest') \<Rightarrow> (g # gs, v4, rest')))))"
  by pat_completeness auto
termination
  by (relation "measure (\<lambda>(limit, i, s). limit - i)") auto

declare read_groups.simps [simp del]

definition read_ipv6_addr :: "string \<Rightarrow> (nat list \<times> string) option" where
  "read_ipv6_addr s =
     (case read_groups 8 0 s of (head, head_ipv4, rest) \<Rightarrow>
        if length head = 8 then Some (head, rest)
        else if head_ipv4 then None
        else if take 2 rest \<noteq> ''::'' then None
        else (case read_groups (8 - (length head + 1)) 0 (drop 2 rest) of (tail, _, rest') \<Rightarrow>
                Some (head @ replicate (8 - length head - length tail) 0 @ tail, rest')))"

definition ipv6_from_str :: "string \<Rightarrow> nat list option" where
  "ipv6_from_str s = (case read_ipv6_addr s of Some (groups, []) \<Rightarrow> Some groups | _ \<Rightarrow> None)"

section \<open>Python's side\<close>

text \<open>\<open>str\<close> of a natural number and of an \<open>ipaddress.IPv4Address\<close>.\<close>

definition digit_char :: "nat \<Rightarrow> char" where
  "digit_char d = char_of (48 + d)"

fun py_str_nat :: "nat \<Rightarrow> string" where
  "py_str_nat n =
     (if n < 10 then [digit_char n] else py_str_nat (n div 10) @ [digit_char (n mod 10)])"

declare py_str_nat.simps [simp del]

datatype v4_arg = V4Str string | V4Obj u8 u8 u8 u8

fun py_str_v4 :: "v4_arg \<Rightarrow> string" where
  "py_str_v4 (V4Str s) = s"
| "py_str_v4 (V4Obj a b c d) =
     py_str_nat (unat a) @ ''.'' @ py_str_nat (unat b) @ ''.'' @ py_str_nat (unat c) @ ''.'' @
     py_str_nat (unat d)"

section \<open>Printing and parsing an IPv4 address\<close>

lemma to_digit_char: "d < 10 \<Longrightarrow> to_digit 10 (digit_char d) = Some d"
  by (simp add: to_digit_def digit_char_def Let_def)

lemma digit_char_zero: "d < 10 \<Longrightarrow> digit_char d = CHR ''0'' \<longleftrightarrow> d = 0"
proof -
  assume d: "d < 10"
  have "of_char (digit_char d) = 48 + d" using d by (simp add: digit_char_def)
  moreover have "of_char CHR ''0'' = (48 :: nat)" by simp
  ultimately show ?thesis by (metis add_cancel_right_right digit_char_def of_char_of char_of_char)
qed

text \<open>The rest of the input does not start with a digit.\<close>

definition no_digit :: "string \<Rightarrow> bool" where
  "no_digit s = (case s of [] \<Rightarrow> True | c # _ \<Rightarrow> to_digit 10 c = None)"

lemma read_digits_stop: "no_digit s \<Longrightarrow> read_digits 10 m k r s = Some (k, r, s)"
  by (cases s) (simp_all add: no_digit_def)

lemma py_str_nat_octet:
  "n < 10 \<Longrightarrow> py_str_nat n = [digit_char n]"
  "10 \<le> n \<Longrightarrow> n < 100 \<Longrightarrow> py_str_nat n = [digit_char (n div 10), digit_char (n mod 10)]"
  "100 \<le> n \<Longrightarrow> n < 1000 \<Longrightarrow> py_str_nat n =
     [digit_char (n div 100), digit_char (n div 10 mod 10), digit_char (n mod 10)]"
proof -
  show one: "py_str_nat n = [digit_char n]" if "n < 10" for n
    using that by (simp add: py_str_nat.simps [of n])
  show two: "py_str_nat n = [digit_char (n div 10), digit_char (n mod 10)]"
    if "10 \<le> n" "n < 100" for n
    using that one [of "n div 10"] by (simp add: py_str_nat.simps [of n])
  show "py_str_nat n = [digit_char (n div 100), digit_char (n div 10 mod 10), digit_char (n mod 10)]"
    if "100 \<le> n" "n < 1000"
    using that two [of "n div 10"] by (simp add: py_str_nat.simps [of n] div_mult2_eq [symmetric])
qed

lemma length_py_str_octet: "n < 256 \<Longrightarrow> length (py_str_nat n) \<le> 3"
  using py_str_nat_octet [of n] by (cases "n < 10"; cases "n < 100") auto

lemma dec_expand: "(n div 100 * 10 + n div 10 mod 10) * 10 + n mod 10 = (n :: nat)"
proof -
  have "n div 100 = n div 10 div 10" by (simp add: div_mult2_eq [symmetric])
  then show ?thesis by (metis div_mult_mod_eq)
qed

lemma read_number_octet:
  assumes "n < 256" "no_digit s"
  shows "read_number 10 3 255 False (py_str_nat n @ s) = Some (n, s)"
proof -
  note stop = read_digits_stop [OF assms(2)]
  consider "n < 10" | "10 \<le> n" "n < 100" | "100 \<le> n" by linarith
  then show ?thesis
  proof cases
    case 1
    have "read_digits 10 3 0 0 (py_str_nat n @ s) = Some (1, n, s)"
      by (simp add: py_str_nat_octet(1) [OF 1] to_digit_char 1 stop)
    with 1 show ?thesis by (simp add: read_number_def)
  next
    case 2
    let ?a = "n div 10" and ?b = "n mod 10"
    have ab: "?a < 10" "?b < 10" "?a \<noteq> 0" "?a * 10 + ?b = n" using 2 by (auto simp: div_eq_0_iff)
    have str: "py_str_nat n @ s = digit_char ?a # digit_char ?b # s"
      by (simp add: py_str_nat_octet(2) [OF 2])
    have "read_digits 10 3 0 0 (digit_char ?a # digit_char ?b # s) = Some (2, n, s)"
      using ab(4) by (simp add: to_digit_char ab stop numeral_2_eq_2)
    with ab(1,3) assms(1) show ?thesis
      unfolding str by (simp add: read_number_def digit_char_zero)
  next
    case 3
    let ?a = "n div 100" and ?b = "n div 10 mod 10" and ?c = "n mod 10"
    have abc: "?a < 10" "?b < 10" "?c < 10" "?a \<noteq> 0" using 3 assms(1) by (auto simp: div_eq_0_iff)
    have str: "py_str_nat n @ s = digit_char ?a # digit_char ?b # digit_char ?c # s"
      using 3 assms(1) by (simp add: py_str_nat_octet(3))
    have "read_digits 10 3 0 0 (digit_char ?a # digit_char ?b # digit_char ?c # s) = Some (3, n, s)"
      using dec_expand [of n] by (simp add: to_digit_char abc stop numeral_3_eq_3)
    with abc(1,4) assms(1) show ?thesis
      unfolding str by (simp add: read_number_def digit_char_zero)
  qed
qed

lemma no_digit_dot: "no_digit (CHR ''.'' # s)" "no_digit []"
  by (simp_all add: no_digit_def to_digit_def Let_def)

lemma unat_u8: "unat (a :: u8) < 256"
  using unsigned_less [of a, where 'a = nat] by simp

lemma four_Suc: "(4 :: nat) = Suc (Suc (Suc (Suc 0)))"
  by simp

lemma read_ipv4_printed:
  assumes "no_digit s"
  shows "read_ipv4_addr (py_str_v4 (V4Obj a b c d) @ s) = Some ([unat a, unat b, unat c, unat d], s)"
  unfolding read_ipv4_addr_def four_Suc
  using assms
  by (simp add: read_separator_def read_number_octet [OF unat_u8] no_digit_dot)

text \<open>Evaluation of the parsers on concrete text.\<close>

lemmas ip_eval = ipv4_from_str_def read_ipv4_addr_def ipv6_from_str_def read_ipv6_addr_def
  read_groups.simps read_separator_def read_number_def to_digit_def Let_def four_Suc

section \<open>Whatever parses is an address\<close>

lemma read_number_bound: "read_number radix m bound z s = Some (n, rest) \<Longrightarrow> n \<le> bound"
  by (auto simp: read_number_def split: option.splits if_splits)

lemma read_separator_cases:
  "read_separator sep i inner s = Some x \<Longrightarrow> \<exists>s'. inner s' = Some x"
  by (auto simp: read_separator_def split: if_splits list.splits)

lemma read_octets_bound:
  "read_octets i n s = Some (os, rest) \<Longrightarrow> length os = n \<and> (\<forall>x \<in> set os. x \<le> 255)"
  by (induction i n s arbitrary: os rest rule: read_octets.induct)
    (auto split: option.splits prod.splits dest!: read_separator_cases read_number_bound)

lemma read_ipv4_bound:
  assumes "read_ipv4_addr s = Some (os, rest)"
  shows "length os = 4" "\<forall>x \<in> set os. x \<le> 255" "i < 4 \<Longrightarrow> os ! i \<le> 255"
  using read_octets_bound [OF assms [unfolded read_ipv4_addr_def]] by auto

lemma read_groups_bound:
  "read_groups limit i s = (gs, v4, rest) \<Longrightarrow> i \<le> limit \<Longrightarrow>
     length gs + i \<le> limit \<and> (\<forall>g \<in> set gs. g < 65536)"
proof (induction limit i s arbitrary: gs v4 rest rule: read_groups.induct)
  case (1 limit i s)
  show ?case
  proof (cases "limit \<le> i")
    case True
    with "1.prems" show ?thesis by (simp add: read_groups.simps [of limit i s])
  next
    case lt: False
    let ?v4 = "if i < limit - 1 then read_separator CHR '':'' i read_ipv4_addr s else None"
    show ?thesis
    proof (cases ?v4)
      case (Some x)
      then obtain os r where x: "x = (os, r)" "i < limit - 1"
        "read_separator CHR '':'' i read_ipv4_addr s = Some (os, r)"
        by (cases x) (auto split: if_splits)
      from read_separator_cases [OF x(3)] obtain s' where "read_ipv4_addr s' = Some (os, r)" ..
      note b = read_ipv4_bound(3) [OF this]
      have "gs = [os ! 0 * 256 + os ! 1, os ! 2 * 256 + os ! 3]"
        using "1.prems"(1) lt x by (simp add: read_groups.simps [of limit i s])
      with x(2) b [of 0] b [of 1] b [of 2] b [of 3] show ?thesis by simp
    next
      case None
      show ?thesis
      proof (cases "read_separator CHR '':'' i (read_number 16 4 65535 True) s")
        case group: None
        with "1.prems" lt None show ?thesis by (simp add: read_groups.simps [of limit i s])
      next
        case (Some y)
        then obtain g r where y: "y = (g, r)" by (cases y)
        from read_separator_cases [OF Some] y have "g < 65536"
          by (auto dest: read_number_bound)
        obtain gs' v4' r' where rec: "read_groups limit (Suc i) r = (gs', v4', r')"
          by (metis prod_cases3)
        have "gs = g # gs'"
          using "1.prems"(1) lt None Some y rec by (simp add: read_groups.simps [of limit i s])
        moreover from "1.IH" [OF lt None Some y [symmetric] rec] lt
        have "length gs' + Suc i \<le> limit \<and> (\<forall>g \<in> set gs'. g < 65536)" by simp
        ultimately show ?thesis using \<open>g < 65536\<close> by simp
      qed
    qed
  qed
qed

section \<open>What is read\<close>

text \<open>An \<open>ipaddress.IPv4Address\<close> survives the trip through text. What Python prints for the
  object parses in Rust, and to the same four octets: no valid address object is refused by
  \<open>prep_connect_v4\<close>, and none connects anywhere else.\<close>

lemma ipv4_str_roundtrip:
  "ipv4_from_str (py_str_v4 (V4Obj a b c d)) = Some [unat a, unat b, unat c, unat d]"
proof -
  have "length (py_str_v4 (V4Obj a b c d)) \<le> 15"
    using length_py_str_octet [OF unat_u8, of a] length_py_str_octet [OF unat_u8, of b]
      length_py_str_octet [OF unat_u8, of c] length_py_str_octet [OF unat_u8, of d] by simp
  with read_ipv4_printed [OF no_digit_dot(2), of a b c d] show ?thesis
    by (simp add: ipv4_from_str_def)
qed

text \<open>Text that passes for an address is a whole address: an accepted IPv4 text gives four
  octets of at most 255, an accepted IPv6 text gives eight groups of 16 bits, whichever mix of
  groups, \<open>::\<close> and embedded IPv4 it is written with.\<close>

lemma parsed_addresses_complete:
  "(\<forall>os. ipv4_from_str s = Some os \<longrightarrow> length os = 4 \<and> (\<forall>x \<in> set os. x \<le> 255)) \<and>
   (\<forall>gs. ipv6_from_str s = Some gs \<longrightarrow> length gs = 8 \<and> (\<forall>x \<in> set gs. x < 65536))"
proof (intro conjI allI impI)
  fix os assume "ipv4_from_str s = Some os"
  then have "read_ipv4_addr s = Some (os, [])"
    by (auto simp: ipv4_from_str_def split: if_splits option.splits list.splits prod.splits)
  from read_ipv4_bound [OF this] show "length os = 4" "\<forall>x \<in> set os. x \<le> 255" by auto
next
  fix gs assume "ipv6_from_str s = Some gs"
  then have r: "read_ipv6_addr s = Some (gs, [])"
    by (auto simp: ipv6_from_str_def split: option.splits list.splits prod.splits)
  obtain hd4 v4 rest where h: "read_groups 8 0 s = (hd4, v4, rest)" by (metis prod_cases3)
  obtain tl4 v rest' where t: "read_groups (8 - (length hd4 + 1)) 0 (drop 2 rest) = (tl4, v, rest')"
    by (metis prod_cases3)
  note hb = read_groups_bound [OF h, simplified] and tb = read_groups_bound [OF t, simplified]
  from r h t hb tb have "length gs = 8 \<and> (\<forall>x \<in> set gs. x < 65536)"
    by (auto simp: read_ipv6_addr_def split: if_splits)
  then show "length gs = 8" "\<forall>x \<in> set gs. x < 65536" by auto
qed

end
