(* ===== verification/Ffi.thy ===== *)
theory Ffi
  imports Ring_Reap Sqe_Flags Ip_Addr
begin

text \<open>
  The Rust functions that prepare submissions: \<^verbatim>\<open>src/shared.rs\<close>, \<^verbatim>\<open>src/files.rs\<close> and
  \<^verbatim>\<open>src/network.rs\<close>. Their arguments have already been converted to Rust types. Every function
  checks the probe, then the flags, then its own arguments, pushes one entry and hands the memory
  of the entry to the ring.
\<close>

section \<open>Checks\<close>

definition require_support :: "opcode \<Rightarrow> string \<Rightarrow> (('r, 'z) st_scheme, unit) prog" where
  "require_support code name =
     bindP (getP (\<lambda>s. probe (ring s) code)) (\<lambda>ok. guardP ok (NotImplementedError name))"

definition refuse_skip_success :: "('r, 'w) env \<Rightarrow> u8 \<Rightarrow> (('r, 'z) st_scheme, unit) prog" where
  "refuse_skip_success E sqe_flags =
     guardP (\<not> skips_success (env_flags E) sqe_flags) (ValueError SkipSuccessOwned)"

text \<open>\<open>offset + size\<close> is computed in \<open>usize\<close>.\<close>

definition check_write_buffer :: "u8 list \<Rightarrow> usize \<Rightarrow> usize \<Rightarrow> exn + usize" where
  "check_write_buffer buf sz offset =
     (if length buf < unat sz then Inl (ValueError (CantWrite (unat sz) (length buf)))
      else if length buf < unat offset then
        Inl (ValueError (OffsetOutOfRange (unat offset) (length buf)))
      else (let end_offset = offset + sz in
        if length buf < unat end_offset then
          Inl (ValueError (OffsetOutOfRange (unat end_offset) (length buf)))
        else Inr end_offset))"

text \<open>\<open>data[from..to]\<close>, which panics outside the slice.\<close>

definition slice_range :: "u8 list \<Rightarrow> usize \<Rightarrow> usize \<Rightarrow> exn + u8 list" where
  "slice_range data from to =
     (if unat from \<le> unat to \<and> unat to \<le> length data
      then Inr (take (unat to - unat from) (drop (unat from) data))
      else Inl PanicException)"

section \<open>\<^verbatim>\<open>shared.rs\<close> and \<^verbatim>\<open>files.rs\<close>\<close>

text \<open>The message of the first check of \<open>ioring_prep_close\<close> does say \<open>read\<close>.\<close>

definition ioring_prep_close ::
  "('r, 'w) env \<Rightarrow> i32 \<Rightarrow> u64 \<Rightarrow> u8 \<Rightarrow> (('r, 'z) st_scheme, unit) prog" where
  "ioring_prep_close E fd user_data sqe_flags =
     bindP (require_support CODE_Close ''read'') (\<lambda>_.
     autosubmit E \<lparr>op_of = Close fd, sqe_flag_bits = parse_flags (env_flags E) sqe_flags,
       sqe_user_data = user_data\<rparr>)"

definition ioring_prep_openat ::
  "('r, 'w) env \<Rightarrow> i32 \<Rightarrow> u8 list \<Rightarrow> u64 \<Rightarrow> i32 \<Rightarrow> u32 \<Rightarrow> u8 \<Rightarrow> (('r, 'z) st_scheme, unit) prog" where
  "ioring_prep_openat E dirfd file_path user_data file_flags mode sqe_flags =
     bindP (require_support CODE_OpenAt ''openat'') (\<lambda>_.
     bindP (refuse_skip_success E sqe_flags) (\<lambda>_.
     bindP (alloc (file_path @ [0])) (\<lambda>owned_path.
     bindP (or_drop owned_path (autosubmit E
       \<lparr>op_of = OpenAt dirfd owned_path file_flags mode,
        sqe_flag_bits = parse_flags (env_flags E) sqe_flags, sqe_user_data = user_data\<rparr>)) (\<lambda>_.
     add_owned_path user_data owned_path))))"

definition ioring_prep_read ::
  "('r, 'w) env \<Rightarrow> i32 \<Rightarrow> u32 \<Rightarrow> i64 \<Rightarrow> u64 \<Rightarrow> u8 \<Rightarrow> (('r, 'z) st_scheme, unit) prog" where
  "ioring_prep_read E fd max_size offset user_data sqe_flags =
     bindP (require_support CODE_Read ''read'') (\<lambda>_.
     bindP (refuse_skip_success E sqe_flags) (\<lambda>_.
     bindP (alloc (replicate (unat max_size) 0)) (\<lambda>buf.
     bindP (or_drop buf (autosubmit E
       \<lparr>op_of = Read fd buf max_size offset,
        sqe_flag_bits = parse_flags (env_flags E) sqe_flags, sqe_user_data = user_data\<rparr>)) (\<lambda>_.
     add_owned_buffer user_data buf))))"

text \<open>\<open>vec.len() as u32\<close> keeps the low 32 bits of the length.\<close>

definition ioring_prep_write ::
  "('r, 'w) env \<Rightarrow> i32 \<Rightarrow> u8 list \<Rightarrow> usize \<Rightarrow> usize \<Rightarrow> i64 \<Rightarrow> u64 \<Rightarrow> u8 \<Rightarrow>
     (('r, 'z) st_scheme, unit) prog" where
  "ioring_prep_write E fd data sz buffer_offset file_offset user_data sqe_flags =
     bindP (require_support CODE_Write ''write'') (\<lambda>_.
     bindP (refuse_skip_success E sqe_flags) (\<lambda>_.
     bindP (liftP (check_write_buffer data sz buffer_offset)) (\<lambda>end_offset.
     bindP (liftP (slice_range data buffer_offset end_offset)) (\<lambda>bytes.
     bindP (alloc bytes) (\<lambda>vec.
     bindP (or_drop vec (autosubmit E
       \<lparr>op_of = Write fd vec (of_nat (length bytes)) file_offset,
        sqe_flag_bits = parse_flags (env_flags E) sqe_flags, sqe_user_data = user_data\<rparr>)) (\<lambda>_.
     add_owned_buffer user_data vec))))))"

section \<open>\<^verbatim>\<open>network.rs\<close>\<close>

definition ioring_prep_create_socket ::
  "('r, 'w) env \<Rightarrow> i32 \<Rightarrow> i32 \<Rightarrow> i32 \<Rightarrow> u64 \<Rightarrow> u8 \<Rightarrow> (('r, 'z) st_scheme, unit) prog" where
  "ioring_prep_create_socket E domain socket_type protocol user_data sqe_flags =
     bindP (require_support CODE_Socket ''socket'') (\<lambda>_.
     autosubmit E \<lparr>op_of = Socket domain socket_type protocol,
       sqe_flag_bits = parse_flags (env_flags E) sqe_flags, sqe_user_data = user_data\<rparr>)"

text \<open>The address is boxed before the flags are looked at, so the box is dropped on that error.\<close>

definition do_sockaddr_submit ::
  "('r, 'w) env \<Rightarrow> i32 \<Rightarrow> socket_addr \<Rightarrow> u64 \<Rightarrow> u8 \<Rightarrow> (('r, 'z) st_scheme, unit) prog" where
  "do_sockaddr_submit E fd addr user_data sqe_flags =
     (let bytes = env_sockaddr E addr in
      bindP (alloc bytes) (\<lambda>c_addr.
      bindP (or_drop c_addr
        (bindP (refuse_skip_success E sqe_flags) (\<lambda>_.
         autosubmit E
           \<lparr>op_of = Connect fd c_addr (of_nat (length bytes)),
            sqe_flag_bits = parse_flags (env_flags E) sqe_flags, sqe_user_data = user_data\<rparr>))) (\<lambda>_.
      add_owned_sockaddr user_data c_addr)))"

definition parse_or_raise :: "'a option \<Rightarrow> exn + 'a" where
  "parse_or_raise x = (case x of None \<Rightarrow> Inl (ValueError InvalidAddress) | Some a \<Rightarrow> Inr a)"

definition ioring_prep_connect_v4 ::
  "('r, 'w) env \<Rightarrow> i32 \<Rightarrow> string \<Rightarrow> u16 \<Rightarrow> u64 \<Rightarrow> u8 \<Rightarrow> (('r, 'z) st_scheme, unit) prog" where
  "ioring_prep_connect_v4 E fd ip port user_data sqe_flags =
     bindP (require_support CODE_Connect ''connect'') (\<lambda>_.
     bindP (liftP (parse_or_raise (ipv4_from_str ip))) (\<lambda>v4.
     do_sockaddr_submit E fd (SockV4 (map of_nat v4) port) user_data sqe_flags))"

definition ioring_prep_connect_v6 ::
  "('r, 'w) env \<Rightarrow> i32 \<Rightarrow> string \<Rightarrow> u16 \<Rightarrow> u64 \<Rightarrow> u8 \<Rightarrow> (('r, 'z) st_scheme, unit) prog" where
  "ioring_prep_connect_v6 E fd ip port user_data sqe_flags =
     bindP (require_support CODE_Connect ''connect'') (\<lambda>_.
     bindP (liftP (parse_or_raise (ipv6_from_str ip))) (\<lambda>v6.
     do_sockaddr_submit E fd (SockV6 (map of_nat v6) port) user_data sqe_flags))"

definition ioring_prep_send ::
  "('r, 'w) env \<Rightarrow> i32 \<Rightarrow> u8 list \<Rightarrow> usize \<Rightarrow> usize \<Rightarrow> i32 \<Rightarrow> u64 \<Rightarrow> u8 \<Rightarrow>
     (('r, 'z) st_scheme, unit) prog" where
  "ioring_prep_send E fd data sz buffer_offset flags user_data sqe_flags =
     bindP (require_support CODE_Send ''send'') (\<lambda>_.
     bindP (refuse_skip_success E sqe_flags) (\<lambda>_.
     bindP (liftP (check_write_buffer data sz buffer_offset)) (\<lambda>end_offset.
     bindP (liftP (slice_range data buffer_offset end_offset)) (\<lambda>bytes.
     bindP (alloc bytes) (\<lambda>vec.
     bindP (or_drop vec (autosubmit E
       \<lparr>op_of = Send fd vec (of_nat (length bytes)) flags,
        sqe_flag_bits = parse_flags (env_flags E) sqe_flags, sqe_user_data = user_data\<rparr>)) (\<lambda>_.
     add_owned_buffer user_data vec))))))"

definition ioring_prep_recv ::
  "('r, 'w) env \<Rightarrow> i32 \<Rightarrow> u32 \<Rightarrow> i32 \<Rightarrow> u64 \<Rightarrow> u8 \<Rightarrow> (('r, 'z) st_scheme, unit) prog" where
  "ioring_prep_recv E fd max_size flags user_data sqe_flags =
     bindP (require_support CODE_Recv ''recv'') (\<lambda>_.
     bindP (refuse_skip_success E sqe_flags) (\<lambda>_.
     bindP (alloc (replicate (unat max_size) 0)) (\<lambda>buf.
     bindP (or_drop buf (autosubmit E
       \<lparr>op_of = Recv fd buf max_size flags,
        sqe_flag_bits = parse_flags (env_flags E) sqe_flags, sqe_user_data = user_data\<rparr>)) (\<lambda>_.
     add_owned_buffer user_data buf))))"

section \<open>The checks one by one\<close>

lemma bindP_require_support:
  "bindP (require_support code name) f s =
     (if probe (ring s) code then f () s else (Inl (NotImplementedError name), s))"
  by (simp add: require_support_def bindP_def guardP_def)

lemma bindP_refuse_skip:
  "bindP (refuse_skip_success E fl) f s =
     (if skips_success (env_flags E) fl then (Inl (ValueError SkipSuccessOwned), s) else f () s)"
  by (simp add: refuse_skip_success_def bindP_def guardP_def)

lemma bindP_liftP:
  "bindP (liftP r) f s = (case r of Inl e \<Rightarrow> (Inl e, s) | Inr x \<Rightarrow> f x s)"
  by (simp add: bindP_def split: sum.split)

lemmas ffi_checks = bindP_require_support bindP_refuse_skip bindP_liftP

lemmas ffi_defs = ioring_prep_close_def ioring_prep_openat_def ioring_prep_read_def
  ioring_prep_write_def ioring_prep_create_socket_def ioring_prep_connect_v4_def
  ioring_prep_connect_v6_def ioring_prep_send_def ioring_prep_recv_def

end
