(* ===== verification/Ffi_Contract.thy ===== *)
theory Ffi_Contract
  imports Ffi
begin

text \<open>
  The contract the nine preparing functions share, as a locale, and its interpretation on each of
  them. The Python layer relies on the contract and on nothing else to show that its methods keep
  the ring's invariant.
\<close>

section \<open>What a submission leaves alone\<close>

lemma autosubmit_closed:
  "the_io_uring (ring s) = None \<Longrightarrow> autosubmit E e s = (Inl (ValueError RingClosed), s)"
  by (simp add: autosubmit_def)

lemma autosubmit_frame:
  "owned_data (ring (snd (autosubmit E e s))) = owned_data (ring s)"
  "user_data_counter (ring (snd (autosubmit E e s))) = user_data_counter (ring s)"
  "probe (ring (snd (autosubmit E e s))) = probe (ring s)"
  "brk (snd (autosubmit E e s)) = brk s"
  by (simp_all add: autosubmit_def split: option.split prod.split)

lemma autosubmit_pushed:
  assumes "fst (autosubmit E e s) = Inr ()"
  shows "\<exists>r r'. ur_push (env_ring E) e r = Some r' \<and>
           the_io_uring (ring (snd (autosubmit E e s))) = Some r'"
  using assms
  by (auto simp: autosubmit_def autosubmit_loop_unrolled
      split: option.splits if_splits prod.splits sum.splits)

lemma autosubmit_pushed':
  assumes "autosubmit E e s = (Inr (), t)"
  shows "\<exists>r r'. ur_push (env_ring E) e r = Some r' \<and> the_io_uring (ring t) = Some r'"
  using autosubmit_pushed [of E e s] assms by simp

lemma free_blocks_ring [simp]: "ring (free_blocks bs s) = ring s"
  by (simp add: free_blocks_def)

lemma owned_insert_fields [simp]:
  "owned_data (ring (owned_insert u d s)) = (owned_data (ring s))(u \<mapsto> d)"
  "user_data_counter (ring (owned_insert u d s)) = user_data_counter (ring s)"
  "the_io_uring (ring (owned_insert u d s)) = the_io_uring (ring s)"
  by (simp_all add: owned_insert_def)

lemma alloc_app:
  "alloc bs s = (Inr (brk s), s\<lparr>heap := (heap s)(brk s \<mapsto> bs), brk := Suc (brk s)\<rparr>)"
  by (simp add: alloc_def)

text \<open>The effects of a program on the parts of the ring the contract is about.\<close>

definition contract :: "('r, 'w) env \<Rightarrow> u64 \<Rightarrow> (('r, 'z) st_scheme, unit) prog \<Rightarrow> bool" where
  "contract E ud m \<longleftrightarrow> (\<forall>s.
     user_data_counter (ring (snd (m s))) = user_data_counter (ring s) \<and>
     (\<forall>v. v \<noteq> ud \<longrightarrow> owned_data (ring (snd (m s))) v = owned_data (ring s) v) \<and>
     (isl (fst (m s)) \<longrightarrow> owned_data (ring (snd (m s))) = owned_data (ring s)) \<and>
     (the_io_uring (ring s) = None \<longrightarrow> isl (fst (m s)) \<and> the_io_uring (ring (snd (m s))) = None) \<and>
     (fst (m s) = Inr () \<longrightarrow> (\<exists>e r r'. sqe_user_data e = ud \<and> ur_push (env_ring E) e r = Some r' \<and>
        the_io_uring (ring (snd (m s))) = Some r')))"

definition preserves :: "('r, 'w) env \<Rightarrow> u64 \<Rightarrow> (('r, 'z) st_scheme, unit) prog \<Rightarrow> bool" where
  "preserves E ud m \<longleftrightarrow> (\<forall>live s. uring_laws (env_ring E) live \<longrightarrow> ring_inv live s \<longrightarrow>
     unused_ud live ud s \<longrightarrow> ring_inv live (snd (m s)))"

lemma contract_require [intro]: "contract E ud m \<Longrightarrow> contract E ud (bindP (require_support c n) (\<lambda>_. m))"
  by (simp add: contract_def bindP_require_support)

lemma contract_refuse [intro]:
  "contract E ud m \<Longrightarrow> contract E ud (bindP (refuse_skip_success E' fl) (\<lambda>_. m))"
  by (simp add: contract_def bindP_refuse_skip)

lemma contract_lift [intro]: "(\<And>x. contract E ud (f x)) \<Longrightarrow> contract E ud (bindP (liftP r) f)"
  by (cases r) (simp_all add: contract_def bindP_liftP)

lemma preserves_require [intro]:
  "preserves E ud m \<Longrightarrow> preserves E ud (bindP (require_support c n) (\<lambda>_. m))"
  by (simp add: preserves_def bindP_require_support)

lemma preserves_refuse [intro]:
  "preserves E ud m \<Longrightarrow> preserves E ud (bindP (refuse_skip_success E' fl) (\<lambda>_. m))"
  by (simp add: preserves_def bindP_refuse_skip)

lemma preserves_lift:
  "(\<And>x. r = Inr x \<Longrightarrow> preserves E ud (f x)) \<Longrightarrow> preserves E ud (bindP (liftP r) f)"
  by (cases r) (simp_all add: preserves_def bindP_liftP)

lemma contract_plain: "sqe_user_data e = ud \<Longrightarrow> contract E ud (autosubmit E e)"
  unfolding contract_def
  by (metis autosubmit_closed autosubmit_frame(1,2) autosubmit_pushed fst_conv snd_conv sum.disc(1))

lemma preserves_plain:
  "sqe_user_data e = ud \<Longrightarrow> sqe_blocks e = {} \<Longrightarrow> preserves E ud (autosubmit E e)"
  by (auto simp: preserves_def intro: ring_inv_submit_plain)

text \<open>Copy to the heap, submit, hand the copy to the table; drop it when the submission fails.\<close>

lemma contract_owned:
  fixes E :: "('r, 'w) env" and m :: "block \<Rightarrow> (('r, 'z) st_scheme, unit) prog"
  assumes m: "\<And>b. contract E ud (m b)"
  shows "contract E ud (bindP (alloc bs) (\<lambda>b.
    bindP (or_drop b (m b)) (\<lambda>_. modP (owned_insert ud (d b)))))"
    (is "contract E ud ?m")
  unfolding contract_def
proof
  fix s :: "('r, 'z) st_scheme"
  let ?b = "brk s"
  define s1 where "s1 = s\<lparr>heap := (heap s)(?b \<mapsto> bs), brk := Suc ?b\<rparr>"
  have al: "alloc bs s = (Inr ?b, s1)" and r1: "ring s1 = ring s" by (simp_all add: s1_def alloc_app)
  obtain x t where au: "m ?b s1 = (x, t)" by (metis prod.exhaust)
  have run: "?m s = (case x of Inl e \<Rightarrow> (Inl e, free_blocks [?b] t) | Inr _ \<Rightarrow> (Inr (), owned_insert ud (d ?b) t))"
    by (simp add: bindP_def al au or_drop_def split: sum.split)
  note c = m [of ?b, unfolded contract_def, rule_format, of s1, unfolded au fst_conv snd_conv r1]
  show "user_data_counter (ring (snd (?m s))) = user_data_counter (ring s) \<and>
     (\<forall>v. v \<noteq> ud \<longrightarrow> owned_data (ring (snd (?m s))) v = owned_data (ring s) v) \<and>
     (isl (fst (?m s)) \<longrightarrow> owned_data (ring (snd (?m s))) = owned_data (ring s)) \<and>
     (the_io_uring (ring s) = None \<longrightarrow> isl (fst (?m s)) \<and> the_io_uring (ring (snd (?m s))) = None) \<and>
     (fst (?m s) = Inr () \<longrightarrow> (\<exists>e r r'. sqe_user_data e = ud \<and> ur_push (env_ring E) e r = Some r' \<and>
        the_io_uring (ring (snd (?m s))) = Some r'))"
    unfolding run using c by (cases x) auto
qed

lemma preserves_owned:
  assumes "\<And>b. sqe_user_data (entry b) = ud" "\<And>b. sqe_blocks (entry b) = {b}"
    "\<And>b. op_fits (op_of (entry b)) bs" "\<And>b. owned_blocks (d b) = [b]"
  shows "preserves E ud (bindP (alloc bs) (\<lambda>b.
    bindP (or_drop b (autosubmit E (entry b))) (\<lambda>_. modP (owned_insert ud (d b)))))"
  using assms by (auto simp: preserves_def intro!: ring_inv_submit_owned)

lemma alloc_then_raise:
  assumes "ring_inv live s"
  shows "ring_inv live (snd (bindP (alloc bs) (\<lambda>b. bindP (or_drop b (raise_exn x)) (f b)) s))"
proof -
  have inv: "ring_inv live (snd (alloc bs s))" and ok: "mem_ok s"
    using assms ring_inv_alloc by (auto simp: ring_inv_def)
  have "\<not> owned_somewhere s (brk s)"
    using owned_allocated [OF ok] mem_ok_fresh [OF ok] by blast
  then have "\<not> owned_somewhere (snd (alloc bs s)) (brk s)"
    by (simp add: owned_somewhere_def alloc_def)
  from ring_inv_free [OF inv this] show ?thesis
    by (simp add: bindP_def alloc_def or_drop_def)
qed

lemma refuse_eq:
  "bindP (refuse_skip_success E fl) (\<lambda>_. m) =
     (if skips_success (env_flags E) fl then raise_exn (ValueError SkipSuccessOwned) else m)"
  by (simp add: fun_eq_iff bindP_refuse_skip)

lemma preserves_owned_refuse:
  assumes "\<And>b. sqe_user_data (entry b) = ud" "\<And>b. sqe_blocks (entry b) = {b}"
    "\<And>b. op_fits (op_of (entry b)) bs" "\<And>b. owned_blocks (d b) = [b]"
  shows "preserves E ud (bindP (alloc bs) (\<lambda>b.
    bindP (or_drop b (bindP (refuse_skip_success E' fl) (\<lambda>_. autosubmit E (entry b))))
      (\<lambda>_. modP (owned_insert ud (d b)))))"
proof (cases "skips_success (env_flags E') fl")
  case True
  then show ?thesis by (simp add: preserves_def refuse_eq alloc_then_raise)
next
  case False
  then show ?thesis using preserves_owned [OF assms] by (simp add: refuse_eq)
qed

end
