(* ===== verification/Undisturbed.thy ===== *)
theory Undisturbed
  imports Ffi_Contract
begin

text \<open>
  Memory the ring owns and no read of the kernel targets is left alone by every operation. This is
  what makes the copies of written data, paths and addresses keep their bytes until they are
  reaped.
\<close>

section \<open>Quiet blocks\<close>

definition quiet :: "('r \<Rightarrow> sqe multiset) \<Rightarrow> block \<Rightarrow> ('r, 'z) st_scheme \<Rightarrow> bool" where
  "quiet live b s \<longleftrightarrow> owned_somewhere s b \<and> b \<notin> writes_of (ring_live live s)"

text \<open>What \<open>m\<close> does to a quiet block, when it submits under an unused \<open>ud\<close>.\<close>

definition undisturbed :: "('r, 'w) env \<Rightarrow> u64 \<Rightarrow> (('r, 'z) st_scheme, unit) prog \<Rightarrow> bool" where
  "undisturbed E ud m \<longleftrightarrow> (\<forall>live s b. uring_laws (env_ring E) live \<longrightarrow> ring_inv live s \<longrightarrow>
     unused_ud live ud s \<longrightarrow> quiet live b s \<longrightarrow>
     heap (snd (m s)) b = heap s b \<and> b \<notin> writes_of (ring_live live (snd (m s))))"

lemma undisturbed_require:
  "undisturbed E ud m \<Longrightarrow> undisturbed E ud (bindP (require_support c n) (\<lambda>_. m))"
  by (simp add: undisturbed_def bindP_require_support quiet_def)

lemma undisturbed_refuse:
  "undisturbed E ud m \<Longrightarrow> undisturbed E ud (bindP (refuse_skip_success E' fl) (\<lambda>_. m))"
  by (simp add: undisturbed_def bindP_refuse_skip quiet_def)

lemma undisturbed_lift:
  "(\<And>x. r = Inr x \<Longrightarrow> undisturbed E ud (f x)) \<Longrightarrow> undisturbed E ud (bindP (liftP r) f)"
  by (cases r) (simp_all add: undisturbed_def bindP_liftP quiet_def)

lemma writes_of_add: "writes_of (add_mset e L) = op_writes (op_of e) \<union> writes_of L"
  by (auto simp: writes_of_def)

lemma writes_of_enter: "enter_law live r m r' m' \<Longrightarrow> writes_of (live r') \<subseteq> writes_of (live r)"
  by (simp add: enter_law_def writes_of_mono)

lemma enter_keeps: "enter_law live r m r' m' \<Longrightarrow> b \<notin> writes_of (live r) \<Longrightarrow> m' b = m b"
  by (simp add: enter_law_def mem_frame_def)

text \<open>What \<open>autosubmit\<close> leaves behind on any ring.\<close>

lemma autosubmit_effect:
  assumes laws: "uring_laws (env_ring E) live" and run: "autosubmit E e s = (x, t)"
    and b: "b \<notin> writes_of (ring_live live s)" "b \<notin> op_writes (op_of e)"
  shows "heap t b = heap s b \<and> b \<notin> writes_of (ring_live live t)"
proof (cases "the_io_uring (ring s)")
  case None
  with run b show ?thesis by (auto simp: autosubmit_def)
next
  case (Some r)
  from laws Some run show ?thesis
  proof (cases rule: autosubmit_cases)
    case (1 r1 m')
    with b Some enter_keeps [OF 1(1)] writes_of_enter [OF 1(1)] show ?thesis by auto
  next
    case (2 r1 r' m')
    with b Some enter_keeps [OF 2(1)] writes_of_enter [OF 2(1)] show ?thesis
      by (auto simp: writes_of_add)
  qed
qed

lemma undisturbed_plain:
  assumes "sqe_blocks e = {}"
  shows "undisturbed E ud (autosubmit E e)"
  unfolding undisturbed_def
proof (intro allI impI)
  fix live s b
  assume "uring_laws (env_ring E) live" "quiet live b s"
  then show "heap (snd (autosubmit E e s)) b = heap s b \<and>
      b \<notin> writes_of (ring_live live (snd (autosubmit E e s)))"
    using assms op_writes_subset [of "op_of e"]
      autosubmit_effect [of E live e s "fst (autosubmit E e s)" "snd (autosubmit E e s)" b]
    by (auto simp: quiet_def sqe_blocks_def)
qed

text \<open>The shape of the submissions with owned data.\<close>

lemma owned_submit_run:
  fixes m :: "block \<Rightarrow> (('r, 'z) st_scheme, unit) prog"
  assumes "m (brk s) (snd (alloc bs s)) = (x, t)"
  shows "bindP (alloc bs) (\<lambda>b. bindP (or_drop b (m b)) (\<lambda>_. modP (owned_insert ud (d b)))) s =
    (case x of Inl e \<Rightarrow> (Inl e, free_blocks [brk s] t) | Inr _ \<Rightarrow> (Inr (), owned_insert ud (d (brk s)) t))"
  using assms by (simp add: bindP_def alloc_def or_drop_def split: sum.split)

lemma alloc_state:
  "ring (snd (alloc bs s)) = ring s" "heap (snd (alloc bs s)) = (heap s)(brk s \<mapsto> bs)"
  by (simp_all add: alloc_def)

lemma free_heap [simp]: "heap (free_blocks bs s) b = (if b \<in> set bs then None else heap s b)"
  by (simp add: free_blocks_def)

lemma owned_insert_heap:
  "owned_data (ring s) ud = None \<Longrightarrow> heap (owned_insert ud d s) = heap s"
  by (simp add: owned_insert_def free_blocks_def restrict_map_def)

lemma ring_live_ring: "the_io_uring (ring s) = the_io_uring (ring t) \<Longrightarrow> ring_live live s = ring_live live t"
  by (simp add: ring_live_def)

lemma quiet_not_fresh: "ring_inv live s \<Longrightarrow> quiet live b s \<Longrightarrow> b \<noteq> brk s"
  using owned_allocated [of s b] mem_ok_fresh [of s] by (auto simp: quiet_def ring_inv_def)

lemma undisturbed_wrapper:
  fixes m :: "block \<Rightarrow> (('r, 'z) st_scheme, unit) prog" and E :: "('r, 'w) env"
  assumes m: "\<And>live s b c x t. uring_laws (env_ring E) live \<Longrightarrow> m c s = (x, t) \<Longrightarrow>
      b \<notin> writes_of (ring_live live s) \<Longrightarrow> b \<noteq> c \<Longrightarrow>
      heap t b = heap s b \<and> b \<notin> writes_of (ring_live live t) \<and> owned_data (ring t) = owned_data (ring s)"
  shows "undisturbed E ud (bindP (alloc bs) (\<lambda>b.
    bindP (or_drop b (m b)) (\<lambda>_. modP (owned_insert ud (d b)))))"
    (is "undisturbed E ud ?w")
  unfolding undisturbed_def
proof (intro allI impI)
  fix live :: "'r \<Rightarrow> sqe multiset" and s :: "('r, 'z) st_scheme" and b
  assume laws: "uring_laws (env_ring E) live" and inv: "ring_inv live s"
    and unused: "unused_ud live ud s" and q: "quiet live b s"
  let ?s1 = "snd (alloc bs s)"
  obtain x t where run: "m (brk s) ?s1 = (x, t)" by (metis prod.exhaust)
  have ne: "b \<noteq> brk s" using inv q by (rule quiet_not_fresh)
  have "b \<notin> writes_of (ring_live live ?s1)"
    using q ring_live_ring [of ?s1 s live] by (simp add: quiet_def alloc_state)
  from m [OF laws run this ne] ne have eff: "heap t b = heap s b" "b \<notin> writes_of (ring_live live t)"
    "owned_data (ring t) = owned_data (ring s)" by (simp_all add: alloc_state)
  have none: "owned_data (ring t) ud = None" using unused eff(3) by (simp add: unused_ud_def)
  have "ring_live live (snd (?w s)) = ring_live live t"
    unfolding owned_submit_run [where m = m, OF run] by (rule ring_live_ring) (simp split: sum.split)
  with eff ne show "heap (snd (?w s)) b = heap s b \<and> b \<notin> writes_of (ring_live live (snd (?w s)))"
    unfolding owned_submit_run [where m = m, OF run] by (simp add: owned_insert_heap [OF none] split: sum.split)
qed

lemma undisturbed_owned:
  assumes "\<And>b. sqe_blocks (entry b) = {b}"
  shows "undisturbed E ud (bindP (alloc bs) (\<lambda>b.
    bindP (or_drop b (autosubmit E (entry b))) (\<lambda>_. modP (owned_insert ud (d b)))))"
proof (rule undisturbed_wrapper)
  fix live s b c x t
  assume *: "uring_laws (env_ring E) live" "autosubmit E (entry c) s = (x, t)"
    "b \<notin> writes_of (ring_live live s)" "b \<noteq> c"
  moreover have "b \<notin> op_writes (op_of (entry c))"
    using assms [of c] \<open>b \<noteq> c\<close> op_writes_subset [of "op_of (entry c)"] by (auto simp: sqe_blocks_def)
  ultimately show "heap t b = heap s b \<and> b \<notin> writes_of (ring_live live t) \<and>
      owned_data (ring t) = owned_data (ring s)"
    using autosubmit_effect [of E live "entry c" s x t b] autosubmit_frame(1) [of E "entry c" s] by simp
qed

lemma undisturbed_owned_refuse:
  assumes "\<And>b. sqe_blocks (entry b) = {b}"
  shows "undisturbed E ud (bindP (alloc bs) (\<lambda>b.
    bindP (or_drop b (bindP (refuse_skip_success E' fl) (\<lambda>_. autosubmit E (entry b))))
      (\<lambda>_. modP (owned_insert ud (d b)))))"
proof (cases "skips_success (env_flags E') fl")
  case True
  show ?thesis unfolding refuse_eq by (rule undisturbed_wrapper) (auto simp: True)
next
  case False
  then show ?thesis using undisturbed_owned [OF assms] by (simp add: refuse_eq)
qed

lemmas undisturbed_rules = undisturbed_require undisturbed_refuse undisturbed_lift undisturbed_owned
  undisturbed_owned_refuse undisturbed_plain

lemma undisturbed_ffi:
  "undisturbed E ud (ioring_prep_openat E dirfd path ud flags mode fl)"
  "undisturbed E ud (ioring_prep_close E fd ud fl)"
  "undisturbed E ud (ioring_prep_read E fd n off ud fl)"
  "undisturbed E ud (ioring_prep_write E fd data sz start off ud fl)"
  "undisturbed E ud (ioring_prep_create_socket E domain kind protocol ud fl)"
  "undisturbed E ud (ioring_prep_connect_v4 E fd ip port ud fl)"
  "undisturbed E ud (ioring_prep_connect_v6 E fd ip port ud fl)"
  "undisturbed E ud (ioring_prep_recv E fd n flags ud fl)"
  "undisturbed E ud (ioring_prep_send E fd data sz start flags ud fl)"
  unfolding ffi_defs do_sockaddr_submit_def Let_def add_owned_path_def add_owned_buffer_def
    add_owned_sockaddr_def
  by (intro undisturbed_rules; simp add: sqe_blocks_def)+

section \<open>The bytes the kernel reads\<close>

text \<open>After \<open>m\<close> the table holds a block under \<open>ud\<close>, as \<open>d\<close>, with the given bytes, which no read targets.\<close>

definition stores ::
  "('r, 'w) env \<Rightarrow> u64 \<Rightarrow> (('r, 'z) st_scheme, unit) prog \<Rightarrow> (block \<Rightarrow> owned_data) \<Rightarrow> u8 list \<Rightarrow> bool" where
  "stores E ud m d bytes \<longleftrightarrow> (\<forall>live s t. uring_laws (env_ring E) live \<longrightarrow> ring_inv live s \<longrightarrow>
     unused_ud live ud s \<longrightarrow> m s = (Inr (), t) \<longrightarrow>
     (\<exists>b. owned_data (ring t) ud = Some (d b) \<and> heap t b = Some bytes \<and> quiet live b t))"

lemma stores_require: "stores E ud m d bs \<Longrightarrow> stores E ud (bindP (require_support c n) (\<lambda>_. m)) d bs"
  by (simp add: stores_def bindP_require_support)

lemma stores_refuse: "stores E ud m d bs \<Longrightarrow> stores E ud (bindP (refuse_skip_success E' fl) (\<lambda>_. m)) d bs"
  by (simp add: stores_def bindP_refuse_skip)

lemma stores_lift:
  "(\<And>x. r = Inr x \<Longrightarrow> stores E ud (f x) d bs) \<Longrightarrow> stores E ud (bindP (liftP r) f) d bs"
  by (cases r) (simp_all add: stores_def bindP_liftP)

lemma stores_owned:
  fixes E :: "('r, 'w) env"
  assumes entry: "\<And>b. op_writes (op_of (entry b)) = {}" and own: "\<And>b. owned_blocks (d b) = [b]"
  shows "stores E ud (bindP (alloc bs) (\<lambda>b.
    bindP (or_drop b (autosubmit E (entry b))) (\<lambda>_. modP (owned_insert ud (d b))))) d bs"
    (is "stores E ud ?w d bs")
  unfolding stores_def
proof (intro allI impI)
  fix live :: "'r \<Rightarrow> sqe multiset" and s :: "('r, 'a) st_scheme" and t
  assume laws: "uring_laws (env_ring E) live" and inv: "ring_inv live s"
    and unused: "unused_ud live ud s" and fin: "?w s = (Inr (), t)"
  let ?s1 = "snd (alloc bs s)" and ?b = "brk s"
  obtain x t1 where run: "autosubmit E (entry ?b) ?s1 = (x, t1)" by (metis prod.exhaust)
  have t: "t = owned_insert ud (d ?b) t1"
    using fin unfolding owned_submit_run [where m = "\<lambda>b. autosubmit E (entry b)", OF run]
    by (simp split: sum.splits)
  have "?b \<notin> writes_of (ring_live live s)" using inv by (rule fresh_unwritten)
  then have "?b \<notin> writes_of (ring_live live ?s1)"
    using ring_live_ring [of ?s1 s live] by (simp add: alloc_state)
  from autosubmit_effect [OF laws run this] entry
  have eff: "heap t1 ?b = Some bs" "?b \<notin> writes_of (ring_live live t1)" by (simp_all add: alloc_state)
  have "owned_data (ring t1) ud = None"
    using unused autosubmit_frame(1) [of E "entry ?b" ?s1] run by (simp add: unused_ud_def alloc_state)
  then have "heap t = heap t1" unfolding t by (rule owned_insert_heap)
  moreover have "ring_live live t = ring_live live t1" by (rule ring_live_ring) (simp add: t)
  moreover have "owned_data (ring t) ud = Some (d ?b)" by (simp add: t)
  ultimately show "\<exists>b. owned_data (ring t) ud = Some (d b) \<and> heap t b = Some bs \<and> quiet live b t"
    using eff own by (auto simp: quiet_def owned_somewhere_def intro!: exI [of _ ?b] exI [of _ ud])
qed

lemma stores_owned_refuse:
  assumes "\<And>b. op_writes (op_of (entry b)) = {}" "\<And>b. owned_blocks (d b) = [b]"
  shows "stores E ud (bindP (alloc bs) (\<lambda>b.
    bindP (or_drop b (bindP (refuse_skip_success E' fl) (\<lambda>_. autosubmit E (entry b))))
      (\<lambda>_. modP (owned_insert ud (d b))))) d bs"
proof (cases "skips_success (env_flags E') fl")
  case True
  show ?thesis unfolding refuse_eq
    by (simp add: True stores_def bindP_def or_drop_def alloc_def)
next
  case False
  then show ?thesis using stores_owned [OF assms] by (simp add: refuse_eq)
qed

end
