(* ===== verification/Ffi_Ops.thy ===== *)
theory Ffi_Ops
  imports Undisturbed
begin

text \<open>
  The contract as a locale, and its interpretation on each of the nine functions that prepare a
  submission. What a caller that numbers its submissions with \<open>get_next_user_data\<close> may rely on is
  proved once, inside the locale.
\<close>

section \<open>Numbering a submission\<close>

definition numbered ::
  "(u64 \<Rightarrow> (('r, 'z) st_scheme, unit) prog) \<Rightarrow> (('r, 'z) st_scheme, u64) prog" where
  "numbered op = bindP get_next_user_data (\<lambda>ud. bindP (op ud) (\<lambda>_. ret ud))"

definition reads :: "('s, 'a) prog \<Rightarrow> bool" where
  "reads m \<longleftrightarrow> (\<forall>s. snd (m s) = s)"

lemma reads_liftP [simp, intro]: "reads (liftP r)"
  by (simp add: reads_def)

lemma reads_getP [simp, intro]: "reads (getP f)"
  by (simp add: reads_def)

lemma reads_guardP [simp, intro]: "reads (guardP b e)"
  by (simp add: reads_def guardP_app)

lemma reads_ret [simp, intro]: "reads (ret x)"
  by (simp add: reads_def)

lemma reads_bindP [intro]: "reads m \<Longrightarrow> (\<And>x. reads (f x)) \<Longrightarrow> reads (bindP m f)"
  unfolding reads_def bindP_def by (simp split: prod.split sum.split) (metis snd_conv)

lemma bindP_reads:
  "reads m \<Longrightarrow> bindP m f s = (case fst (m s) of Inl e \<Rightarrow> (Inl e, s) | Inr x \<Rightarrow> f x s)"
  unfolding reads_def bindP_def by (metis (no_types, lifting) case_prod_unfold)

lemma contract_reads: "reads m \<Longrightarrow> (\<And>x. contract E ud (f x)) \<Longrightarrow> contract E ud (bindP m f)"
  by (simp add: contract_def bindP_reads split: sum.split)

lemma preserves_reads: "reads m \<Longrightarrow> (\<And>x. preserves E ud (f x)) \<Longrightarrow> preserves E ud (bindP m f)"
  by (simp add: preserves_def bindP_reads split: sum.split)

lemma undisturbed_reads:
  "reads m \<Longrightarrow> (\<And>x. undisturbed E ud (f x)) \<Longrightarrow> undisturbed E ud (bindP m f)"
  by (simp add: undisturbed_def bindP_reads quiet_def split: sum.split)

section \<open>The locale\<close>

locale submission =
  fixes E :: "('r, 'w) env" and op :: "u64 \<Rightarrow> (('r, 'z) st_scheme, unit) prog"
  assumes op_contract: "contract E ud (op ud)"
    and op_preserves: "preserves E ud (op ud)"
    and op_undisturbed: "undisturbed E ud (op ud)"
begin

lemma numbered_run:
  "numbered op s = (case op (user_data_counter (ring s)) (snd (get_next_user_data s)) of
     (Inl e, t) \<Rightarrow> (Inl e, t) | (Inr _, t) \<Rightarrow> (Inr (user_data_counter (ring s)), t))"
  by (simp add: numbered_def bindP_def get_next_user_data_def split: prod.split sum.split)

lemma counter_next:
  "user_data_counter (ring (snd (get_next_user_data s))) = user_data_counter (ring s) + 1"
  "owned_data (ring (snd (get_next_user_data s))) = owned_data (ring s)"
  "the_io_uring (ring (snd (get_next_user_data s))) = the_io_uring (ring s)"
  by (simp_all add: get_next_user_data_def)

lemma op_contractD:
  assumes "op u s = (x, t)"
  shows "user_data_counter (ring t) = user_data_counter (ring s)"
    and "v \<noteq> u \<Longrightarrow> owned_data (ring t) v = owned_data (ring s) v"
    and "isl x \<Longrightarrow> owned_data (ring t) = owned_data (ring s)"
    and "the_io_uring (ring s) = None \<Longrightarrow> isl x"
    and "x = Inr () \<Longrightarrow> \<exists>e r r'. sqe_user_data e = u \<and> ur_push (env_ring E) e r = Some r' \<and>
           the_io_uring (ring t) = Some r'"
  using op_contract [of u, unfolded contract_def, rule_format, of s] assms by simp_all

lemma numbered_snd:
  "snd (numbered op s) = snd (op (user_data_counter (ring s)) (snd (get_next_user_data s)))"
  by (cases "op (user_data_counter (ring s)) (snd (get_next_user_data s))")
    (simp add: numbered_run split: sum.split)

text \<open>The counter moves by one, whether or not the submission succeeds.\<close>

lemma numbered_counter:
  "user_data_counter (ring (snd (numbered op s))) = user_data_counter (ring s) + 1"
  using op_contractD(1) [OF prod.collapse [symmetric],
      of "user_data_counter (ring s)" "snd (get_next_user_data s)"]
  by (simp add: numbered_snd counter_next)

lemma numbered_value: "numbered op s = (Inr u, t) \<Longrightarrow> u = user_data_counter (ring s)"
  by (auto simp: numbered_run split: prod.splits sum.splits)

lemma numbered_pushed:
  assumes "numbered op s = (Inr u, t)"
  shows "\<exists>e r r'. sqe_user_data e = u \<and> ur_push (env_ring E) e r = Some r' \<and>
           the_io_uring (ring t) = Some r'"
proof -
  obtain y where "op (user_data_counter (ring s)) (snd (get_next_user_data s)) = (Inr y, t)"
    and "u = user_data_counter (ring s)"
    using assms by (auto simp: numbered_run split: prod.splits sum.splits)
  then show ?thesis using op_contractD(5) by simp
qed

lemma numbered_closed: "the_io_uring (ring s) = None \<Longrightarrow> isl (fst (numbered op s))"
  using op_contractD(4) [OF prod.collapse [symmetric],
      of "snd (get_next_user_data s)" "user_data_counter (ring s)"]
  by (auto simp: numbered_run counter_next split: prod.split sum.split)

lemma numbered_error:
  assumes "isl (fst (numbered op s))"
  shows "owned_data (ring (snd (numbered op s))) = owned_data (ring s)"
proof -
  obtain x t where run: "op (user_data_counter (ring s)) (snd (get_next_user_data s)) = (x, t)"
    by (metis prod.exhaust)
  from assms have "isl x" by (simp add: numbered_run run split: sum.splits)
  from op_contractD(3) [OF run this] show ?thesis
    by (simp add: numbered_run run counter_next split: sum.split)
qed

lemma numbered_others:
  assumes "v \<noteq> user_data_counter (ring s)"
  shows "owned_data (ring (snd (numbered op s))) v = owned_data (ring s) v"
proof -
  obtain x t where run: "op (user_data_counter (ring s)) (snd (get_next_user_data s)) = (x, t)"
    by (metis prod.exhaust)
  from op_contractD(2) [OF run assms] show ?thesis
    by (simp add: numbered_run run counter_next split: sum.split)
qed

lemma numbered_inv:
  assumes laws: "uring_laws (env_ring E) live" and inv: "ring_inv live s"
    and small: "user_data_counter (ring s) < 2 ^ 63"
  shows "ring_inv live (snd (numbered op s))"
proof -
  let ?u = "user_data_counter (ring s)" and ?s1 = "snd (get_next_user_data s)"
  have run: "get_next_user_data s = (Inr ?u, ?s1)" by (simp add: get_next_user_data_def)
  from ring_inv_get_next_user_data [OF inv small run]
  have "ring_inv live (snd (op ?u ?s1))"
    using op_preserves [of ?u] laws unfolding preserves_def by blast
  then show ?thesis by (simp add: numbered_snd)
qed

lemma numbered_calm:
  assumes laws: "uring_laws (env_ring E) live" and inv: "ring_inv live s"
    and small: "user_data_counter (ring s) < 2 ^ 63" and q: "quiet live b s"
  shows "heap (snd (numbered op s)) b = heap s b \<and> quiet live b (snd (numbered op s))"
proof -
  let ?u = "user_data_counter (ring s)" and ?s1 = "snd (get_next_user_data s)"
  have run: "get_next_user_data s = (Inr ?u, ?s1)" by (simp add: get_next_user_data_def)
  have q1: "quiet live b ?s1"
    using q ring_live_ring [of ?s1 s live]
    by (simp add: quiet_def owned_somewhere_def counter_next)
  have hp: "heap ?s1 = heap s" by (simp add: get_next_user_data_def)
  note fresh = ring_inv_get_next_user_data [OF inv small run]
  have "heap (snd (op ?u ?s1)) b = heap ?s1 b \<and> b \<notin> writes_of (ring_live live (snd (op ?u ?s1)))"
    using op_undisturbed [of ?u] laws fresh q1 unfolding undisturbed_def by blast
  moreover have "owned_somewhere (snd (numbered op s)) b"
  proof -
    from q obtain v d where v: "owned_data (ring s) v = Some d" "b \<in> set (owned_blocks d)"
      by (auto simp: quiet_def owned_somewhere_def)
    then have "v \<noteq> ?u" using fresh(2) by (auto simp: unused_ud_def counter_next)
    with v numbered_others show ?thesis by (metis owned_somewhere_def)
  qed
  ultimately show ?thesis by (simp add: quiet_def numbered_snd hp)
qed

end

text \<open>A function that takes converted arguments; a caller computes them without touching the state.\<close>

locale ffi_function =
  fixes E :: "('r, 'w) env" and call :: "'a \<Rightarrow> u64 \<Rightarrow> (('r, 'z) st_scheme, unit) prog"
  assumes call_contract: "contract E ud (call a ud)"
    and call_preserves: "preserves E ud (call a ud)"
    and call_undisturbed: "undisturbed E ud (call a ud)"
begin

lemma after_reading:
  assumes "\<And>ud. reads (m ud)"
  shows "submission E (\<lambda>ud. bindP (m ud) (\<lambda>a. call a ud))"
  by unfold_locales
    (simp_all add: assms call_contract call_preserves call_undisturbed contract_reads preserves_reads
      undisturbed_reads)

end

sublocale ffi_function \<subseteq> submission E "call a" for a
  by unfold_locales (rule call_contract call_preserves call_undisturbed)+

section \<open>Interpretations\<close>

lemma unat_of_nat_le: "unat (of_nat n :: 'a::len word) \<le> n"
  by (simp add: unat_of_nat)

lemmas contract_rules = contract_require contract_refuse contract_lift contract_owned contract_plain

lemma contract_sockaddr: "contract E ud (do_sockaddr_submit E fd a ud fl)"
  unfolding do_sockaddr_submit_def add_owned_sockaddr_def Let_def
  by (intro contract_rules) simp

lemma preserves_sockaddr: "preserves E ud (do_sockaddr_submit E fd a ud fl)"
  unfolding do_sockaddr_submit_def add_owned_sockaddr_def Let_def
  by (rule preserves_owned_refuse) (simp_all add: sqe_blocks_def unat_of_nat_le)

lemmas preserves_rules = preserves_require preserves_refuse preserves_lift preserves_owned
  preserves_plain preserves_sockaddr

interpretation ffi_openat: ffi_function E "\<lambda>(dirfd, path, flags, mode, fl) ud. ioring_prep_openat E dirfd path ud flags mode fl" for E
proof (unfold_locales, safe)
  show "contract E ud (ioring_prep_openat E dirfd path ud flags mode fl)" for dirfd path flags mode fl ud
    unfolding ioring_prep_openat_def add_owned_path_def add_owned_buffer_def
    by (intro contract_rules) simp
  show "preserves E ud (ioring_prep_openat E dirfd path ud flags mode fl)" for dirfd path flags mode fl ud
    unfolding ioring_prep_openat_def add_owned_path_def add_owned_buffer_def
    by (intro preserves_rules) (simp_all add: sqe_blocks_def unat_of_nat_le)
  show "undisturbed E ud (ioring_prep_openat E dirfd path ud flags mode fl)" for dirfd path flags mode fl ud
    by (rule undisturbed_ffi)
qed

interpretation ffi_close: ffi_function E "\<lambda>(fd, fl) ud. ioring_prep_close E fd ud fl" for E
proof (unfold_locales, safe)
  show "contract E ud (ioring_prep_close E fd ud fl)" for fd fl ud
    unfolding ioring_prep_close_def
    by (intro contract_rules) simp
  show "preserves E ud (ioring_prep_close E fd ud fl)" for fd fl ud
    unfolding ioring_prep_close_def
    by (intro preserves_rules) (simp_all add: sqe_blocks_def)
  show "undisturbed E ud (ioring_prep_close E fd ud fl)" for fd fl ud
    by (rule undisturbed_ffi)
qed

interpretation ffi_read: ffi_function E "\<lambda>(fd, n, off, fl) ud. ioring_prep_read E fd n off ud fl" for E
proof (unfold_locales, safe)
  show "contract E ud (ioring_prep_read E fd n off ud fl)" for fd n off fl ud
    unfolding ioring_prep_read_def add_owned_path_def add_owned_buffer_def
    by (intro contract_rules) simp
  show "preserves E ud (ioring_prep_read E fd n off ud fl)" for fd n off fl ud
    unfolding ioring_prep_read_def add_owned_path_def add_owned_buffer_def
    by (intro preserves_rules) (simp_all add: sqe_blocks_def unat_of_nat_le)
  show "undisturbed E ud (ioring_prep_read E fd n off ud fl)" for fd n off fl ud
    by (rule undisturbed_ffi)
qed

interpretation ffi_write: ffi_function E "\<lambda>(fd, data, sz, start, off, fl) ud. ioring_prep_write E fd data sz start off ud fl" for E
proof (unfold_locales, safe)
  show "contract E ud (ioring_prep_write E fd data sz start off ud fl)" for fd data sz start off fl ud
    unfolding ioring_prep_write_def add_owned_path_def add_owned_buffer_def
    by (intro contract_rules) simp
  show "preserves E ud (ioring_prep_write E fd data sz start off ud fl)" for fd data sz start off fl ud
    unfolding ioring_prep_write_def add_owned_path_def add_owned_buffer_def
    by (intro preserves_rules) (simp_all add: sqe_blocks_def unat_of_nat_le)
  show "undisturbed E ud (ioring_prep_write E fd data sz start off ud fl)" for fd data sz start off fl ud
    by (rule undisturbed_ffi)
qed

interpretation ffi_create_socket: ffi_function E "\<lambda>(domain, kind, protocol, fl) ud. ioring_prep_create_socket E domain kind protocol ud fl" for E
proof (unfold_locales, safe)
  show "contract E ud (ioring_prep_create_socket E domain kind protocol ud fl)" for domain kind protocol fl ud
    unfolding ioring_prep_create_socket_def
    by (intro contract_rules) simp
  show "preserves E ud (ioring_prep_create_socket E domain kind protocol ud fl)" for domain kind protocol fl ud
    unfolding ioring_prep_create_socket_def
    by (intro preserves_rules) (simp_all add: sqe_blocks_def)
  show "undisturbed E ud (ioring_prep_create_socket E domain kind protocol ud fl)" for domain kind protocol fl ud
    by (rule undisturbed_ffi)
qed

interpretation ffi_connect_v4: ffi_function E "\<lambda>(fd, ip, port, fl) ud. ioring_prep_connect_v4 E fd ip port ud fl" for E
proof (unfold_locales, safe)
  show "contract E ud (ioring_prep_connect_v4 E fd ip port ud fl)" for fd ip port fl ud
    unfolding ioring_prep_connect_v4_def
    by (intro contract_rules contract_sockaddr)
  show "preserves E ud (ioring_prep_connect_v4 E fd ip port ud fl)" for fd ip port fl ud
    unfolding ioring_prep_connect_v4_def
    by (intro preserves_rules)
  show "undisturbed E ud (ioring_prep_connect_v4 E fd ip port ud fl)" for fd ip port fl ud
    by (rule undisturbed_ffi)
qed

interpretation ffi_connect_v6: ffi_function E "\<lambda>(fd, ip, port, fl) ud. ioring_prep_connect_v6 E fd ip port ud fl" for E
proof (unfold_locales, safe)
  show "contract E ud (ioring_prep_connect_v6 E fd ip port ud fl)" for fd ip port fl ud
    unfolding ioring_prep_connect_v6_def
    by (intro contract_rules contract_sockaddr)
  show "preserves E ud (ioring_prep_connect_v6 E fd ip port ud fl)" for fd ip port fl ud
    unfolding ioring_prep_connect_v6_def
    by (intro preserves_rules)
  show "undisturbed E ud (ioring_prep_connect_v6 E fd ip port ud fl)" for fd ip port fl ud
    by (rule undisturbed_ffi)
qed

interpretation ffi_recv: ffi_function E "\<lambda>(fd, n, flags, fl) ud. ioring_prep_recv E fd n flags ud fl" for E
proof (unfold_locales, safe)
  show "contract E ud (ioring_prep_recv E fd n flags ud fl)" for fd n flags fl ud
    unfolding ioring_prep_recv_def add_owned_path_def add_owned_buffer_def
    by (intro contract_rules) simp
  show "preserves E ud (ioring_prep_recv E fd n flags ud fl)" for fd n flags fl ud
    unfolding ioring_prep_recv_def add_owned_path_def add_owned_buffer_def
    by (intro preserves_rules) (simp_all add: sqe_blocks_def unat_of_nat_le)
  show "undisturbed E ud (ioring_prep_recv E fd n flags ud fl)" for fd n flags fl ud
    by (rule undisturbed_ffi)
qed

interpretation ffi_send: ffi_function E "\<lambda>(fd, data, sz, start, flags, fl) ud. ioring_prep_send E fd data sz start flags ud fl" for E
proof (unfold_locales, safe)
  show "contract E ud (ioring_prep_send E fd data sz start flags ud fl)" for fd data sz start flags fl ud
    unfolding ioring_prep_send_def add_owned_path_def add_owned_buffer_def
    by (intro contract_rules) simp
  show "preserves E ud (ioring_prep_send E fd data sz start flags ud fl)" for fd data sz start flags fl ud
    unfolding ioring_prep_send_def add_owned_path_def add_owned_buffer_def
    by (intro preserves_rules) (simp_all add: sqe_blocks_def unat_of_nat_le)
  show "undisturbed E ud (ioring_prep_send E fd data sz start flags ud fl)" for fd data sz start flags fl ud
    by (rule undisturbed_ffi)
qed

end
