(* ===== verification/Handle.thy ===== *)
theory Handle
  imports Ring_Core Sample_Env
begin

text \<open>
  File handles: \<^verbatim>\<open>handle.py\<close> and \<open>raise_for_cqe\<close> of \<^verbatim>\<open>helpers.py\<close>. Handles are mutable Python
  objects that several variables may share, so they live in a store; a reference is the number of
  its object. The protocol \<open>FileLikeHandle\<close> is a locale, and \<open>FdHandle\<close> its interpretation.
\<close>

section \<open>State\<close>

type_synonym href = nat

record fd_handle =
  fd_num :: int
  close_flag :: bool

text \<open>
  The state of a Python program that uses a ring: the Rust object, the handles, and the files of
  the process as the operating system sees them.
\<close>

record ('r, 'w) py = "'r st" +
  handles :: "href \<Rightarrow> fd_handle"
  next_href :: href
  files :: 'w

section \<open>\<open>raise_for_cqe\<close>\<close>

text \<open>
  \<open>os.strerror\<close> takes a C \<open>int\<close>; \<open>abs\<close> of the smallest 32-bit result is too large for it.
\<close>

definition raise_for_cqe :: "completion_event \<Rightarrow> exn + unit" where
  "raise_for_cqe cqe =
     (if sint (ev_result cqe) < 0 then
        (let errno = \<bar>sint (ev_result cqe)\<bar>
         in if errno < 2 ^ 31 then Inl (OSError (Some errno)) else Inl OverflowError)
      else Inr ())"

section \<open>\<open>FdHandle\<close>\<close>

definition new_fd_handle :: "int \<Rightarrow> (('r, 'w, 'z) py_scheme, href) prog" where
  "new_fd_handle fd = (\<lambda>s.
     (Inr (next_href s),
      s\<lparr>handles := (handles s)(next_href s := \<lparr>fd_num = fd, close_flag = False\<rparr>),
        next_href := Suc (next_href s)\<rparr>))"

definition from_completion_event :: "completion_event \<Rightarrow> (('r, 'w, 'z) py_scheme, href) prog" where
  "from_completion_event event =
     bindP (liftP (raise_for_cqe event)) (\<lambda>_. new_fd_handle (sint (ev_result event)))"

definition handle_fd :: "href \<Rightarrow> ('r, 'w, 'z) py_scheme \<Rightarrow> int" where
  "handle_fd h s = fd_num (handles s h)"

definition close_called :: "href \<Rightarrow> ('r, 'w, 'z) py_scheme \<Rightarrow> bool" where
  "close_called h s = close_flag (handles s h)"

definition mark_closed :: "href \<Rightarrow> (('r, 'w, 'z) py_scheme, unit) prog" where
  "mark_closed h = modP (\<lambda>s.
     s\<lparr>handles := (handles s)(h := (handles s h)\<lparr>close_flag := True\<rparr>)\<rparr>)"

text \<open>
  \<open>os.close\<close>: the descriptor must fit a C \<open>int\<close>, and the call may fail with an \<open>errno\<close>. It is
  the operating system's business what it does to the files.
\<close>

definition os_close_call :: "('r, 'w) env \<Rightarrow> int \<Rightarrow> (('r, 'w, 'z) py_scheme, unit) prog" where
  "os_close_call E fd = (\<lambda>s.
     if \<not> (- (2 ^ 31) \<le> fd \<and> fd < 2 ^ 31) then (Inl OverflowError, s)
     else (case os_close (env_os E) fd (files s) of
             (None, w) \<Rightarrow> (Inr (), s\<lparr>files := w\<rparr>)
           | (Some errno, w) \<Rightarrow> (Inl (OSError (Some errno)), s\<lparr>files := w\<rparr>)))"

text \<open>\<open>try: m finally: f\<close> for a handler that cannot fail: it runs on both outcomes.\<close>

definition try_finally :: "('s, 'a) prog \<Rightarrow> ('s \<Rightarrow> 's) \<Rightarrow> ('s, 'a) prog" where
  "try_finally m f = (\<lambda>s. case m s of (x, t) \<Rightarrow> (x, f t))"

definition close_handle :: "('r, 'w) env \<Rightarrow> href \<Rightarrow> (('r, 'w, 'z) py_scheme, unit) prog" where
  "close_handle E h = (\<lambda>s.
     if close_flag (handles s h) then (Inr (), s)
     else try_finally (os_close_call E (fd_num (handles s h)))
            (\<lambda>s. s\<lparr>handles := (handles s)(h := (handles s h)\<lparr>close_flag := True\<rparr>)\<rparr>) s)"

text \<open>\<open>__exit__\<close> closes and returns \<open>False\<close>: an exception of the \<open>with\<close> block goes on.\<close>

definition exit_handle :: "('r, 'w) env \<Rightarrow> href \<Rightarrow> (('r, 'w, 'z) py_scheme, bool) prog" where
  "exit_handle E h = bindP (close_handle E h) (\<lambda>_. ret False)"

definition enter_handle :: "href \<Rightarrow> (('r, 'w, 'z) py_scheme, href) prog" where
  "enter_handle h = ret h"

text \<open>
  \<open>with h as x: body\<close>: the block runs on what \<open>__enter__\<close> returns, \<open>__exit__\<close> runs on both its
  outcomes; an exception of \<open>__exit__\<close> replaces that of the block, which is dropped too when
  \<open>__exit__\<close> returns \<open>True\<close>.
\<close>

definition with_block ::
  "('s, 'h) prog \<Rightarrow> ('s, bool) prog \<Rightarrow> ('h \<Rightarrow> ('s, unit) prog) \<Rightarrow> ('s, unit) prog" where
  "with_block enter leave body = bindP enter (\<lambda>h s. case body h s of (x, t) \<Rightarrow>
     (case leave t of
        (Inl e, u) \<Rightarrow> (Inl e, u)
      | (Inr swallow, u) \<Rightarrow> ((if swallow then Inr () else x), u)))"

lemmas handle_defs = handle_fd_def close_called_def mark_closed_def

section \<open>The protocol\<close>

text \<open>
  A program uses a handle by closing it, by leaving its \<open>with\<close> block, or by submitting a close
  for it, which marks it. \<open>history\<close> runs uses of any handles in order.
\<close>

datatype handle_use = Close_Call | With_Exit | Mark

fun use :: "('h \<Rightarrow> ('s, unit) prog) \<Rightarrow> ('h \<Rightarrow> ('s, bool) prog) \<Rightarrow> ('h \<Rightarrow> ('s, unit) prog) \<Rightarrow>
    handle_use \<Rightarrow> 'h \<Rightarrow> 's \<Rightarrow> 's" where
  "use cl ex mk Close_Call h s = snd (cl h s)"
| "use cl ex mk With_Exit h s = snd (ex h s)"
| "use cl ex mk Mark h s = snd (mk h s)"

fun history :: "('h \<Rightarrow> ('s, unit) prog) \<Rightarrow> ('h \<Rightarrow> ('s, bool) prog) \<Rightarrow> ('h \<Rightarrow> ('s, unit) prog) \<Rightarrow>
    (handle_use \<times> 'h) list \<Rightarrow> 's \<Rightarrow> 's" where
  "history cl ex mk [] s = s"
| "history cl ex mk ((u, h) # us) s = history cl ex mk us (use cl ex mk u h s)"

text \<open>
  What \<open>FileLikeHandle\<close> promises: every use leaves the handle closed whatever it raises, none
  reopens a handle or changes a descriptor, and a closed handle is inert. Marking makes no system
  call.
\<close>

locale file_like =
  fixes fd_of :: "'h \<Rightarrow> 's \<Rightarrow> int" and closed :: "'h \<Rightarrow> 's \<Rightarrow> bool"
    and close :: "'h \<Rightarrow> ('s, unit) prog" and leave :: "'h \<Rightarrow> ('s, bool) prog"
    and mark :: "'h \<Rightarrow> ('s, unit) prog" and os_view :: "'s \<Rightarrow> 'v"
  assumes use_closes: "closed h (use close leave mark u h s)"
    and closed_mono: "closed h s \<Longrightarrow> closed h (use close leave mark u k s)"
    and fd_kept: "fd_of h (use close leave mark u k s) = fd_of h s"
    and inert: "closed h s \<Longrightarrow> use close leave mark u h s = s"
    and mark_quiet: "os_view (snd (mark h s)) = os_view s"
begin

lemma fd_stable: "fd_of h (history close leave mark us s) = fd_of h s"
  by (induction us arbitrary: s) (auto simp: fd_kept)

lemma closed_stays: "closed h s \<Longrightarrow> closed h (history close leave mark us s)"
  by (induction us arbitrary: s) (auto simp: closed_mono)

lemma drop_closed:
  "closed h s \<Longrightarrow>
     history close leave mark us s = history close leave mark (filter (\<lambda>(v, k). k \<noteq> h) us) s"
  by (induction us arbitrary: s) (auto simp: inert closed_mono)

text \<open>Only the first use of a handle counts.\<close>

lemma first_use_counts:
  "history close leave mark ((u, h) # us) s =
     history close leave mark ((u, h) # filter (\<lambda>(v, k). k \<noteq> h) us) s"
  using drop_closed [OF use_closes] by simp

lemma marked_stays_open_in_os:
  "os_view (history close leave mark ((Mark, h) # map (\<lambda>u. (u, h)) us) s) = os_view s"
proof -
  have none: "filter (\<lambda>(v, k). k \<noteq> h) (map (\<lambda>u. (u, h)) us) = []"
    by (induction us) simp_all
  show ?thesis by (subst first_use_counts) (simp add: none mark_quiet)
qed

end

section \<open>\<open>FdHandle\<close> keeps the protocol\<close>

lemma close_handle_again: "close_flag (handles s h) \<Longrightarrow> close_handle E h s = (Inr (), s)"
  by (simp add: close_handle_def)

lemma close_handle_fields:
  "handles (snd (close_handle E h s)) = (handles s)(h := (handles s h)\<lparr>close_flag := True\<rparr>)"
  "ring (snd (close_handle E h s)) = ring s"
  "heap (snd (close_handle E h s)) = heap s"
  "brk (snd (close_handle E h s)) = brk s"
  "next_href (snd (close_handle E h s)) = next_href s"
  by (auto simp: close_handle_def try_finally_def os_close_call_def fun_eq_iff
      split: prod.split option.split)

lemma exit_handle_snd: "snd (exit_handle E h s) = snd (close_handle E h s)"
  by (simp add: exit_handle_def bindP_def split: prod.split sum.split)

lemma use_handles:
  "handles (use (close_handle E) (exit_handle E) mark_closed u h s) =
     (handles s)(h := (handles s h)\<lparr>close_flag := True\<rparr>)"
  by (cases u) (simp_all add: exit_handle_snd close_handle_fields mark_closed_def)

lemma mark_closed_again: "close_flag (handles s h) \<Longrightarrow> mark_closed h s = (Inr (), s)"
proof -
  assume "close_flag (handles s h)"
  then have "(handles s h)\<lparr>close_flag := True\<rparr> = handles s h" by simp
  then show ?thesis by (simp add: mark_closed_def)
qed

interpretation fd:
  file_like handle_fd close_called "close_handle E" "exit_handle E" mark_closed files for E
proof unfold_locales
  show "use (close_handle E) (exit_handle E) mark_closed u h s = s" if "close_called h s" for u h s
    using that
    by (cases u) (simp_all add: exit_handle_snd close_handle_again mark_closed_again close_called_def)
qed (auto simp: handle_fd_def close_called_def use_handles mark_closed_def)

section \<open>Properties\<close>

text \<open>C35: only the first use of a handle has an effect. After a \<open>close()\<close>, the end of a
  \<open>with\<close> block or a submitted close (\<open>mark_closed\<close>) of a handle, all later uses of that handle can
  be struck out of any history, interleaved with other handles or not, without changing the
  state: in particular \<open>os.close\<close> is called at most once for it, even when the first call
  raised.\<close>

theorem handle_first_use_counts:
  "history (close_handle E) (exit_handle E) mark_closed ((u, h) # us) s =
     history (close_handle E) (exit_handle E) mark_closed
       ((u, h) # filter (\<lambda>(v, k). k \<noteq> h) us) s"
  by (rule fd.first_use_counts)

text \<open>\<open>from_completion_event\<close> on every result; \<open>abs\<close> of the smallest one does not fit a C \<open>int\<close>.\<close>

lemma from_completion_event_result:
  "from_completion_event ev s =
     (if 0 \<le> sint (ev_result ev)
      then (Inr (next_href s), s\<lparr>handles := (handles s)(next_href s :=
              \<lparr>fd_num = sint (ev_result ev), close_flag = False\<rparr>), next_href := Suc (next_href s)\<rparr>)
      else if ev_result ev = 0x80000000 then (Inl OverflowError, s)
      else (Inl (OSError (Some (- sint (ev_result ev)))), s))"
proof -
  have range: "- (2 ^ 31) \<le> sint (ev_result ev)"
    using sint_ge [of "ev_result ev"] by simp
  have "sint (ev_result ev) = - (2 ^ 31) \<longleftrightarrow> ev_result ev = 0x80000000"
    using signed_word_eqI [of "ev_result ev" "0x80000000"] by auto
  with range show ?thesis
    by (auto simp: from_completion_event_def raise_for_cqe_def new_fd_handle_def bindP_def Let_def)
qed

text \<open>What is left to do when a handle's block ends.\<close>

lemma with_block_handle:
  "with_block (enter_handle h) (exit_handle E h) body s = (case body h s of (x, t) \<Rightarrow>
     if close_called h t then (x, t)
     else (case os_close_call E (handle_fd h t) t of (y, u) \<Rightarrow>
        (if isl y then y else x, u\<lparr>handles := (handles u)(h := (handles u h)\<lparr>close_flag := True\<rparr>)\<rparr>)))"
  by (auto simp: with_block_def enter_handle_def exit_handle_def close_handle_def try_finally_def
      handle_fd_def close_called_def bindP_def split: prod.split sum.split)

text \<open>C36: the life of a handle that a completion gave. A negative result raises and creates nothing,
  with the negated result as \<open>errno\<close> unless that does not fit a C \<open>int\<close>. Any other becomes a new,
  open handle on exactly that descriptor, and no other object changes; a \<open>with\<close> block over it runs
  its body on it and then closes the handle's descriptor once, unless the body has closed the handle or
  marked it; the body's exception goes on, and only an error of \<open>os.close\<close> replaces it; and after
  the block the handle is closed, whatever happened.\<close>

theorem completion_handle_block:
  "(let r = sint (ev_result ev);
        run = bindP (from_completion_event ev)
          (\<lambda>h. with_block (enter_handle h) (exit_handle E h) body) s
    in if r < 0 then
         run = (Inl (if ev_result ev = 0x80000000 then OverflowError else OSError (Some (- r))), s)
       else (let h = next_href s;
                 (x, t) = body h (s\<lparr>handles := (handles s)(h := \<lparr>fd_num = r, close_flag = False\<rparr>),
                   next_href := Suc h\<rparr>)
             in close_called h (snd run) \<and>
                (if close_called h t then run = (x, t)
                 else (case os_close_call E (handle_fd h t) t of (y, u) \<Rightarrow>
                   fst run = (if isl y then y else x) \<and> files (snd run) = files u))))"
  by (auto simp: from_completion_event_result bindP_app [of "from_completion_event ev"]
      with_block_handle close_called_def Let_def split: prod.split)

end
