(* ===== verification/Io_Uring.thy ===== *)
theory Io_Uring
  imports Enums Ffi_Ops Handle
begin

text \<open>
  \<^verbatim>\<open>ring.py\<close>: the Python class \<open>IoUring\<close> and \<open>make_io_ring\<close>. A method converts nothing itself:
  the arguments of a Rust function are converted by \<^verbatim>\<open>pyo3\<close> in the order they are written, before
  the body of the function runs. A \<open>user_data\<close> value is a \<^typ>\<open>u64\<close> that Python only passes around.
\<close>

section \<open>Files\<close>

definition AT_FDCWD :: int where
  "AT_FDCWD = -100"

text \<open>\<open>AcceptableFile\<close>: an integer, or an object; \<open>as_handle\<close> of a handle is the handle itself.\<close>

datatype acceptable_file = FdInt int | FdObj href

fun as_handle :: "href \<Rightarrow> href" where
  "as_handle h = h"

fun unwrap_file :: "acceptable_file \<Rightarrow> (('r, 'w, 'z) py_scheme, int) prog" where
  "unwrap_file (FdInt fd) = ret fd"
| "unwrap_file (FdObj h) = (let handle = as_handle h in
     bindP (getP (close_called handle)) (\<lambda>closed.
     if closed then bindP (getP (handle_fd handle)) (\<lambda>fd. raise_exn (ValueError (HandleClosed fd)))
     else getP (handle_fd (as_handle h))))"

lemma unwrap_file_app:
  "unwrap_file f s = (case f of
      FdInt fd \<Rightarrow> (Inr fd, s)
    | FdObj h \<Rightarrow>
        (if close_called h s then (Inl (ValueError (HandleClosed (handle_fd h s))), s)
         else (Inr (handle_fd h s), s)))"
  by (cases f) (simp_all add: bindP_def)

lemma reads_unwrap_file [simp, intro]: "reads (unwrap_file f)"
  by (simp add: reads_def unwrap_file_app split: acceptable_file.split)

section \<open>Calls into the Rust functions\<close>

definition ffi_prep_openat ::
  "('r, 'w) env \<Rightarrow> int \<Rightarrow> u8 list \<Rightarrow> u64 \<Rightarrow> int \<Rightarrow> int \<Rightarrow> int \<Rightarrow> (('r, 'z) st_scheme, unit) prog" where
  "ffi_prep_openat E dirfd path user_data raw_flags permissions sqe_flags =
     bindP (liftP (py_i32 (env_pyo3 E) dirfd)) (\<lambda>dirfd.
     bindP (liftP (py_i32 (env_pyo3 E) raw_flags)) (\<lambda>raw_flags.
     bindP (liftP (py_u32 (env_pyo3 E) permissions)) (\<lambda>permissions.
     bindP (liftP (py_u8 (env_pyo3 E) sqe_flags)) (\<lambda>sqe_flags.
     ioring_prep_openat E dirfd path user_data raw_flags permissions sqe_flags))))"

definition ffi_prep_close ::
  "('r, 'w) env \<Rightarrow> int \<Rightarrow> u64 \<Rightarrow> int \<Rightarrow> (('r, 'z) st_scheme, unit) prog" where
  "ffi_prep_close E fd user_data sqe_flags =
     bindP (liftP (py_i32 (env_pyo3 E) fd)) (\<lambda>fd.
     bindP (liftP (py_u8 (env_pyo3 E) sqe_flags)) (\<lambda>sqe_flags.
     ioring_prep_close E fd user_data sqe_flags))"

definition ffi_prep_read ::
  "('r, 'w) env \<Rightarrow> int \<Rightarrow> int \<Rightarrow> int \<Rightarrow> u64 \<Rightarrow> int \<Rightarrow> (('r, 'z) st_scheme, unit) prog" where
  "ffi_prep_read E fd byte_count offset user_data sqe_flags =
     bindP (liftP (py_i32 (env_pyo3 E) fd)) (\<lambda>fd.
     bindP (liftP (py_u32 (env_pyo3 E) byte_count)) (\<lambda>byte_count.
     bindP (liftP (py_i64 (env_pyo3 E) offset)) (\<lambda>offset.
     bindP (liftP (py_u8 (env_pyo3 E) sqe_flags)) (\<lambda>sqe_flags.
     ioring_prep_read E fd byte_count offset user_data sqe_flags))))"

definition ffi_prep_write ::
  "('r, 'w) env \<Rightarrow> int \<Rightarrow> pybuf \<Rightarrow> int \<Rightarrow> int \<Rightarrow> int \<Rightarrow> u64 \<Rightarrow> int \<Rightarrow>
     (('r, 'z) st_scheme, unit) prog" where
  "ffi_prep_write E fd buffer sz buffer_offset file_offset user_data sqe_flags =
     bindP (liftP (py_i32 (env_pyo3 E) fd)) (\<lambda>fd.
     bindP (liftP (py_bytes (env_pyo3 E) buffer)) (\<lambda>buffer.
     bindP (liftP (py_usize (env_pyo3 E) sz)) (\<lambda>sz.
     bindP (liftP (py_usize (env_pyo3 E) buffer_offset)) (\<lambda>buffer_offset.
     bindP (liftP (py_i64 (env_pyo3 E) file_offset)) (\<lambda>file_offset.
     bindP (liftP (py_u8 (env_pyo3 E) sqe_flags)) (\<lambda>sqe_flags.
     ioring_prep_write E fd buffer sz buffer_offset file_offset user_data sqe_flags))))))"

definition ffi_prep_create_socket ::
  "('r, 'w) env \<Rightarrow> int \<Rightarrow> int \<Rightarrow> int \<Rightarrow> u64 \<Rightarrow> int \<Rightarrow> (('r, 'z) st_scheme, unit) prog" where
  "ffi_prep_create_socket E domain kind protocol user_data sqe_flags =
     bindP (liftP (py_i32 (env_pyo3 E) domain)) (\<lambda>domain.
     bindP (liftP (py_i32 (env_pyo3 E) kind)) (\<lambda>kind.
     bindP (liftP (py_i32 (env_pyo3 E) protocol)) (\<lambda>protocol.
     bindP (liftP (py_u8 (env_pyo3 E) sqe_flags)) (\<lambda>sqe_flags.
     ioring_prep_create_socket E domain kind protocol user_data sqe_flags))))"

definition ffi_prep_connect_v4 ::
  "('r, 'w) env \<Rightarrow> int \<Rightarrow> string \<Rightarrow> int \<Rightarrow> u64 \<Rightarrow> int \<Rightarrow> (('r, 'z) st_scheme, unit) prog" where
  "ffi_prep_connect_v4 E fd address port user_data sqe_flags =
     bindP (liftP (py_i32 (env_pyo3 E) fd)) (\<lambda>fd.
     bindP (liftP (py_u16 (env_pyo3 E) port)) (\<lambda>port.
     bindP (liftP (py_u8 (env_pyo3 E) sqe_flags)) (\<lambda>sqe_flags.
     ioring_prep_connect_v4 E fd address port user_data sqe_flags)))"

definition ffi_prep_connect_v6 ::
  "('r, 'w) env \<Rightarrow> int \<Rightarrow> string \<Rightarrow> int \<Rightarrow> u64 \<Rightarrow> int \<Rightarrow> (('r, 'z) st_scheme, unit) prog" where
  "ffi_prep_connect_v6 E fd address port user_data sqe_flags =
     bindP (liftP (py_i32 (env_pyo3 E) fd)) (\<lambda>fd.
     bindP (liftP (py_u16 (env_pyo3 E) port)) (\<lambda>port.
     bindP (liftP (py_u8 (env_pyo3 E) sqe_flags)) (\<lambda>sqe_flags.
     ioring_prep_connect_v6 E fd address port user_data sqe_flags)))"

definition ffi_prep_recv ::
  "('r, 'w) env \<Rightarrow> int \<Rightarrow> int \<Rightarrow> int \<Rightarrow> u64 \<Rightarrow> int \<Rightarrow> (('r, 'z) st_scheme, unit) prog" where
  "ffi_prep_recv E fd byte_count flags user_data sqe_flags =
     bindP (liftP (py_i32 (env_pyo3 E) fd)) (\<lambda>fd.
     bindP (liftP (py_u32 (env_pyo3 E) byte_count)) (\<lambda>byte_count.
     bindP (liftP (py_i32 (env_pyo3 E) flags)) (\<lambda>flags.
     bindP (liftP (py_u8 (env_pyo3 E) sqe_flags)) (\<lambda>sqe_flags.
     ioring_prep_recv E fd byte_count flags user_data sqe_flags))))"

definition ffi_prep_send ::
  "('r, 'w) env \<Rightarrow> int \<Rightarrow> pybuf \<Rightarrow> int \<Rightarrow> int \<Rightarrow> int \<Rightarrow> u64 \<Rightarrow> int \<Rightarrow>
     (('r, 'z) st_scheme, unit) prog" where
  "ffi_prep_send E fd buffer sz buffer_offset flags user_data sqe_flags =
     bindP (liftP (py_i32 (env_pyo3 E) fd)) (\<lambda>fd.
     bindP (liftP (py_bytes (env_pyo3 E) buffer)) (\<lambda>buffer.
     bindP (liftP (py_usize (env_pyo3 E) sz)) (\<lambda>sz.
     bindP (liftP (py_usize (env_pyo3 E) buffer_offset)) (\<lambda>buffer_offset.
     bindP (liftP (py_i32 (env_pyo3 E) flags)) (\<lambda>flags.
     bindP (liftP (py_u8 (env_pyo3 E) sqe_flags)) (\<lambda>sqe_flags.
     ioring_prep_send E fd buffer sz buffer_offset flags user_data sqe_flags))))))"

section \<open>The methods\<close>

definition sqe_flags_or_0 :: "int option \<Rightarrow> int" where
  "sqe_flags_or_0 sqe_flags = (case sqe_flags of None \<Rightarrow> 0 | Some f \<Rightarrow> f)"

text \<open>The directory of an \<open>openat\<close> is not checked for being closed.\<close>

fun openat_dirfd :: "acceptable_file option \<Rightarrow> (('r, 'w, 'z) py_scheme, int) prog" where
  "openat_dirfd None = ret (-1)"
| "openat_dirfd (Some (FdInt fd)) = ret fd"
| "openat_dirfd (Some (FdObj h)) = getP (handle_fd (as_handle h))"

definition openat_raw_flags :: "file_open_flag list option \<Rightarrow> int" where
  "openat_raw_flags flags =
     (case flags of None \<Rightarrow> O_CLOEXEC
      | Some fs \<Rightarrow> if fs \<noteq> [] then enum_flags_to_int_flags fs else O_CLOEXEC)"

definition prep_openat ::
  "('r, 'w) env \<Rightarrow> acceptable_file option \<Rightarrow> u8 list \<Rightarrow> file_open_mode \<Rightarrow>
     file_open_flag list option \<Rightarrow> int \<Rightarrow> int option \<Rightarrow> (('r, 'w, 'z) py_scheme, u64) prog" where
  "prep_openat E relative_to path open_mode flags permissions sqe_flags =
     bindP (openat_dirfd relative_to) (\<lambda>dirfd.
     let raw_flags = openat_raw_flags flags in
     bindP get_next_user_data (\<lambda>user_data.
     let raw_flags = raw_flags OR mode_value open_mode;
         sqe_flags = sqe_flags_or_0 sqe_flags in
     bindP (ffi_prep_openat E dirfd path user_data raw_flags permissions sqe_flags) (\<lambda>_.
     ret user_data)))"

definition prep_close ::
  "('r, 'w) env \<Rightarrow> acceptable_file \<Rightarrow> int option \<Rightarrow> (('r, 'w, 'z) py_scheme, u64) prog" where
  "prep_close E fd sqe_flags =
     (let sqe_flags = sqe_flags_or_0 sqe_flags in
      bindP get_next_user_data (\<lambda>user_data.
      bindP (unwrap_file fd) (\<lambda>i.
      bindP (ffi_prep_close E i user_data sqe_flags) (\<lambda>_.
      bindP (case fd of FdInt _ \<Rightarrow> ret () | FdObj h \<Rightarrow> mark_closed (as_handle h)) (\<lambda>_.
      ret user_data)))))"

definition prep_read ::
  "('r, 'w) env \<Rightarrow> acceptable_file \<Rightarrow> int \<Rightarrow> int \<Rightarrow> int option \<Rightarrow>
     (('r, 'w, 'z) py_scheme, u64) prog" where
  "prep_read E fd byte_count offset sqe_flags =
     bindP (guardP (\<not> (offset < 0 \<and> offset < -1)) (ValueError (NegativeOffset offset))) (\<lambda>_.
     let sqe_flags = sqe_flags_or_0 sqe_flags in
     bindP get_next_user_data (\<lambda>user_data.
     bindP (unwrap_file fd) (\<lambda>i.
     bindP (ffi_prep_read E i byte_count offset user_data sqe_flags) (\<lambda>_.
     ret user_data))))"

definition prep_write ::
  "('r, 'w) env \<Rightarrow> acceptable_file \<Rightarrow> pybuf \<Rightarrow> int \<Rightarrow> int option \<Rightarrow> int option \<Rightarrow> int option \<Rightarrow>
     (('r, 'w, 'z) py_scheme, u64) prog" where
  "prep_write E fd buffer file_offset requested buffer_offset sqe_flags =
     bindP (guardP (\<not> file_offset < -1) (ValueError (NegativeOffset file_offset))) (\<lambda>_.
     let sz = (case requested of None \<Rightarrow> int (length (buf_bytes buffer)) | Some n \<Rightarrow> n);
         buffer_offset = (case buffer_offset of None \<Rightarrow> 0 | Some n \<Rightarrow> n) in
     bindP get_next_user_data (\<lambda>user_data.
     let sqe_flags = sqe_flags_or_0 sqe_flags in
     bindP (unwrap_file fd) (\<lambda>i.
     bindP (ffi_prep_write E i buffer sz buffer_offset file_offset user_data sqe_flags) (\<lambda>_.
     ret user_data))))"

definition prep_create_socket ::
  "('r, 'w) env \<Rightarrow> int \<Rightarrow> int \<Rightarrow> int \<Rightarrow> bool \<Rightarrow> int option \<Rightarrow> (('r, 'w, 'z) py_scheme, u64) prog" where
  "prep_create_socket E domain kind protocol nonblocking sqe_flags =
     bindP get_next_user_data (\<lambda>user_data.
     let kind = kind OR SOCK_CLOEXEC;
         kind = (if nonblocking then kind OR SOCK_NONBLOCK else kind);
         sqe_flags = sqe_flags_or_0 sqe_flags in
     bindP (ffi_prep_create_socket E domain kind protocol user_data sqe_flags) (\<lambda>_.
     ret user_data))"

definition prep_connect_v4 ::
  "('r, 'w) env \<Rightarrow> acceptable_file \<Rightarrow> v4_arg \<Rightarrow> int \<Rightarrow> int option \<Rightarrow>
     (('r, 'w, 'z) py_scheme, u64) prog" where
  "prep_connect_v4 E fd address port sqe_flags =
     (let sqe_flags = sqe_flags_or_0 sqe_flags in
      bindP get_next_user_data (\<lambda>user_data.
      bindP (unwrap_file fd) (\<lambda>i.
      bindP (ffi_prep_connect_v4 E i (py_str_v4 address) port user_data sqe_flags) (\<lambda>_.
      ret user_data))))"

text \<open>The IPv6 address is given by its text, \<open>str(address)\<close>.\<close>

definition prep_connect_v6 ::
  "('r, 'w) env \<Rightarrow> acceptable_file \<Rightarrow> string \<Rightarrow> int \<Rightarrow> int option \<Rightarrow>
     (('r, 'w, 'z) py_scheme, u64) prog" where
  "prep_connect_v6 E fd address port sqe_flags =
     (let sqe_flags = sqe_flags_or_0 sqe_flags in
      bindP get_next_user_data (\<lambda>user_data.
      bindP (unwrap_file fd) (\<lambda>i.
      bindP (ffi_prep_connect_v6 E i address port user_data sqe_flags) (\<lambda>_.
      ret user_data))))"

definition prep_recv ::
  "('r, 'w) env \<Rightarrow> acceptable_file \<Rightarrow> int \<Rightarrow> int \<Rightarrow> int option \<Rightarrow>
     (('r, 'w, 'z) py_scheme, u64) prog" where
  "prep_recv E fd byte_count flags sqe_flags =
     (let sqe_flags = sqe_flags_or_0 sqe_flags in
      bindP get_next_user_data (\<lambda>user_data.
      bindP (unwrap_file fd) (\<lambda>i.
      bindP (ffi_prep_recv E i byte_count flags user_data sqe_flags) (\<lambda>_.
      ret user_data))))"

definition prep_send ::
  "('r, 'w) env \<Rightarrow> acceptable_file \<Rightarrow> pybuf \<Rightarrow> int option \<Rightarrow> int option \<Rightarrow> int \<Rightarrow> int option \<Rightarrow>
     (('r, 'w, 'z) py_scheme, u64) prog" where
  "prep_send E fd buffer requested buffer_offset flags sqe_flags =
     (let sz = (case requested of None \<Rightarrow> int (length (buf_bytes buffer)) | Some n \<Rightarrow> n);
          buffer_offset = (case buffer_offset of None \<Rightarrow> 0 | Some n \<Rightarrow> n);
          sqe_flags = sqe_flags_or_0 sqe_flags in
      bindP get_next_user_data (\<lambda>user_data.
      bindP (unwrap_file fd) (\<lambda>i.
      bindP (ffi_prep_send E i buffer sz buffer_offset flags user_data sqe_flags) (\<lambda>_.
      ret user_data))))"

text \<open>The other methods pass their arguments on.\<close>

definition io_submit :: "('r, 'w) env \<Rightarrow> (('r, 'z) st_scheme, nat) prog" where
  "io_submit E = submit E"

definition submit_and_wait :: "('r, 'w) env \<Rightarrow> int \<Rightarrow> (('r, 'z) st_scheme, nat) prog" where
  "submit_and_wait E want = bindP (liftP (py_usize (env_pyo3 E) want)) (wait_cqes E)"

definition submit_and_wait_with_timeout ::
  "('r, 'w) env \<Rightarrow> int \<Rightarrow> int \<Rightarrow> (('r, 'z) st_scheme, nat) prog" where
  "submit_and_wait_with_timeout E seconds nsec =
     bindP (liftP (py_u64 (env_pyo3 E) seconds)) (\<lambda>seconds.
     bindP (liftP (py_u32 (env_pyo3 E) nsec)) (\<lambda>nsec.
     wait_with_timeout E seconds nsec))"

text \<open>The other two calls go straight through.\<close>

abbreviation io_pending_sq_entries :: "('r, 'w) env \<Rightarrow> (('r, 'z) st_scheme, nat) prog" where
  "io_pending_sq_entries \<equiv> pending_sq_entries"

abbreviation io_get_completion_entries ::
  "('r, 'w) env \<Rightarrow> ('r, 'z) st_scheme \<Rightarrow>
     ((exn + completion_event list) \<times> ('r, 'z) st_scheme) option" where
  "io_get_completion_entries \<equiv> get_completion_entries"

text \<open>\<open>os.eventfd\<close> makes a descriptor or fails.\<close>

definition os_eventfd_call :: "('r, 'w) env \<Rightarrow> int \<Rightarrow> int \<Rightarrow> (('r, 'w, 'z) py_scheme, int) prog" where
  "os_eventfd_call E initval flags = (\<lambda>s.
     case os_eventfd (env_os E) initval flags (files s) of
       (Inl errno, w) \<Rightarrow> (Inl (OSError (Some errno)), s\<lparr>files := w\<rparr>)
     | (Inr fd, w) \<Rightarrow> (Inr fd, s\<lparr>files := w\<rparr>))"

definition io_register_eventfd ::
  "('r, 'w) env \<Rightarrow> int option \<Rightarrow> (('r, 'w, 'z) py_scheme, int) prog" where
  "io_register_eventfd E event_fd =
     bindP (case event_fd of Some fd \<Rightarrow> ret fd
            | None \<Rightarrow> os_eventfd_call E 0 (EFD_CLOEXEC OR EFD_NONBLOCK)) (\<lambda>event_fd.
     bindP (liftP (py_i32 (env_pyo3 E) event_fd)) (\<lambda>raw_fd.
     bindP (register_eventfd E raw_fd) (\<lambda>_. ret event_fd)))"

section \<open>\<open>make_io_ring\<close>\<close>

definition positive_or_0 :: "int option \<Rightarrow> int" where
  "positive_or_0 x = (case x of None \<Rightarrow> 0 | Some n \<Rightarrow> if n \<noteq> 0 \<and> n > 0 then n else 0)"

definition ffi_create_io_ring ::
  "('r, 'w) env \<Rightarrow> int \<Rightarrow> int \<Rightarrow> int \<Rightarrow> bool \<Rightarrow> bool \<Rightarrow> (('r, 'z) st_scheme, 'r the_io_ring) prog" where
  "ffi_create_io_ring E entries cq_size sqpoll_idle_ms single_issuer auto =
     bindP (liftP (py_u32 (env_pyo3 E) entries)) (\<lambda>entries.
     bindP (liftP (py_u32 (env_pyo3 E) cq_size)) (\<lambda>cq_size.
     bindP (liftP (py_u32 (env_pyo3 E) sqpoll_idle_ms)) (\<lambda>sqpoll_idle_ms.
     liftP (create_io_ring E entries cq_size sqpoll_idle_ms single_issuer auto))))"

text \<open>
  The context manager around a block \<open>body\<close>: the new ring becomes the ring of the state, and is
  closed when the block ends, with or without an exception.
\<close>

definition make_io_ring ::
  "('r, 'w) env \<Rightarrow> int \<Rightarrow> int option \<Rightarrow> int option \<Rightarrow> bool \<Rightarrow> bool \<Rightarrow>
     (('r, 'z) st_scheme, 'a) prog \<Rightarrow> (('r, 'z) st_scheme, 'a) prog" where
  "make_io_ring E entries cq_size sqpoll_idle_ms single_issuer auto body =
     (let cq_size = positive_or_0 cq_size;
          sqpoll_idle_ms = positive_or_0 sqpoll_idle_ms in
      bindP (ffi_create_io_ring E entries cq_size sqpoll_idle_ms single_issuer auto) (\<lambda>g.
      bindP (modP (\<lambda>s. s\<lparr>ring := g\<rparr>)) (\<lambda>_.
      try_finally body (\<lambda>s. snd (close_ring s)))))"

lemma make_io_ring_eq:
  assumes P: "pyo3_laws (env_pyo3 E)"
  shows "make_io_ring E n cq idle single auto body s =
    (let c = positive_or_0 cq; i = positive_or_0 idle in
     if 0 \<le> n \<and> n < 2 ^ 32 \<and> c < 2 ^ 32 \<and> i < 2 ^ 32
     then (case create_io_ring E (word_of_int n) (word_of_int c) (word_of_int i) single auto of
         Inl e \<Rightarrow> (Inl e, s)
       | Inr g \<Rightarrow> (case body (s\<lparr>ring := g\<rparr>) of (x, t) \<Rightarrow> (x, snd (close_ring t))))
     else (Inl OverflowError, s))"
proof -
  have u32: "py_u32 (env_pyo3 E) k = (if 0 \<le> k \<and> k < 2 ^ 32 then Inr (word_of_int k) else Inl OverflowError)"
    for k using P by (simp add: pyo3_laws_def converts_unsigned_def)
  have pos: "0 \<le> positive_or_0 z" for z by (simp add: positive_or_0_def split: option.split)
  show ?thesis
    by (auto simp: make_io_ring_def ffi_create_io_ring_def Let_def u32 pos bindP_app try_finally_def
        split: sum.split prod.split)
qed

end
