(* ===== verification/Api.thy ===== *)
theory Api
  imports Io_Uring
begin

text \<open>
  The Python methods under one contract. A \<open>request\<close> is a call of one of the nine \<open>prep_\<close> methods;
  the locale \<open>prep_method\<close> says what all of them promise to the code above, and its interpretation
  on \<open>perform\<close> proves it of every one. On top of it, the histories of a program that uses a ring.
\<close>

section \<open>Requests\<close>

datatype request =
    Prep_Openat "acceptable_file option" "u8 list" file_open_mode "file_open_flag list option" int
      "int option"
  | Prep_Close acceptable_file "int option"
  | Prep_Read acceptable_file int int "int option"
  | Prep_Write acceptable_file pybuf int "int option" "int option" "int option"
  | Prep_Create_Socket int int int bool "int option"
  | Prep_Connect_V4 acceptable_file v4_arg int "int option"
  | Prep_Connect_V6 acceptable_file string int "int option"
  | Prep_Recv acceptable_file int int "int option"
  | Prep_Send acceptable_file pybuf "int option" "int option" int "int option"

fun perform :: "('r, 'w) env \<Rightarrow> request \<Rightarrow> (('r, 'w, 'z) py_scheme, u64) prog" where
  "perform E (Prep_Openat dir path mode flags perms fl) = prep_openat E dir path mode flags perms fl"
| "perform E (Prep_Close fd fl) = prep_close E fd fl"
| "perform E (Prep_Read fd n off fl) = prep_read E fd n off fl"
| "perform E (Prep_Write fd buf off n start fl) = prep_write E fd buf off n start fl"
| "perform E (Prep_Create_Socket domain kind protocol nb fl) =
     prep_create_socket E domain kind protocol nb fl"
| "perform E (Prep_Connect_V4 fd address port fl) = prep_connect_v4 E fd address port fl"
| "perform E (Prep_Connect_V6 fd address port fl) = prep_connect_v6 E fd address port fl"
| "perform E (Prep_Recv fd n flags fl) = prep_recv E fd n flags fl"
| "perform E (Prep_Send fd buf n start flags fl) = prep_send E fd buf n start flags fl"

section \<open>The contract of a method\<close>

locale prep_method =
  fixes E :: "('r, 'w) env" and meth :: "(('r, 'z) st_scheme, u64) prog"
  assumes meth_inv: "uring_laws (env_ring E) live \<Longrightarrow> ring_inv live s \<Longrightarrow>
        user_data_counter (ring s) < 2 ^ 63 \<Longrightarrow> ring_inv live (snd (meth s))"
    and meth_value: "meth s = (Inr u, t) \<Longrightarrow>
        u = user_data_counter (ring s) \<and> user_data_counter (ring t) = u + 1 \<and>
        (\<exists>e r r'. sqe_user_data e = u \<and> ur_push (env_ring E) e r = Some r' \<and>
           the_io_uring (ring t) = Some r')"
    and meth_counter: "user_data_counter (ring (snd (meth s))) = user_data_counter (ring s) \<or>
        user_data_counter (ring (snd (meth s))) = user_data_counter (ring s) + 1"
    and meth_closed: "the_io_uring (ring s) = None \<Longrightarrow> isl (fst (meth s))"
    and meth_error: "isl (fst (meth s)) \<Longrightarrow> owned_data (ring (snd (meth s))) = owned_data (ring s)"
    and meth_calm: "uring_laws (env_ring E) live \<Longrightarrow> ring_inv live s \<Longrightarrow>
        user_data_counter (ring s) < 2 ^ 63 \<Longrightarrow> quiet live b s \<Longrightarrow>
        heap (snd (meth s)) b = heap s b \<and> quiet live b (snd (meth s))"
    and meth_others: "v \<noteq> user_data_counter (ring s) \<Longrightarrow>
        owned_data (ring (snd (meth s))) v = owned_data (ring s) v"

text \<open>A numbered submission is such a method; so is one that reads the state first, or one that
  afterwards changes what the ring does not see.\<close>

context submission
begin

lemma numbered_method: "prep_method E (numbered op)"
proof unfold_locales
  show "user_data_counter (ring (snd (numbered op s))) = user_data_counter (ring s) \<or>
        user_data_counter (ring (snd (numbered op s))) = user_data_counter (ring s) + 1" for s
    by (simp add: numbered_counter)
  show "u = user_data_counter (ring s) \<and> user_data_counter (ring t) = u + 1 \<and>
      (\<exists>e r r'. sqe_user_data e = u \<and> ur_push (env_ring E) e r = Some r' \<and>
         the_io_uring (ring t) = Some r')" if "numbered op s = (Inr u, t)" for s u t
    using numbered_value [OF that] numbered_counter [of s] numbered_pushed [OF that] that by simp
qed (rule numbered_inv numbered_calm numbered_closed numbered_error numbered_others; assumption)+

end

sublocale submission \<subseteq> numbering: prep_method E "numbered op"
  by (rule numbered_method)

lemma prep_method_reads:
  fixes f :: "'a \<Rightarrow> (('r, 'z) st_scheme, u64) prog"
  assumes "reads m" "\<And>x. prep_method E (f x)"
  shows "prep_method E (bindP m f)"
proof -
  have run: "bindP m f s = (case fst (m s) of Inl e \<Rightarrow> (Inl e, s) | Inr x \<Rightarrow> f x s)" for s
    using assms(1) by (rule bindP_reads)
  note f = assms(2) [unfolded prep_method_def]
  show ?thesis
    unfolding prep_method_def
    using f by (simp add: run split: sum.split)
qed

section \<open>The nine methods\<close>

lemma numbered_after:
  "bindP get_next_user_data (\<lambda>ud. bindP (m ud) (\<lambda>i. bindP (g ud i) (\<lambda>_. ret ud))) =
     numbered (\<lambda>ud. bindP (m ud) (g ud))"
  by (simp add: numbered_def bindP_assoc)

lemma openat_submission:
  "submission E (\<lambda>ud. ffi_prep_openat E dirfd path ud flags mode fl)"
  using ffi_openat.after_reading [of
    "\<lambda>_. bindP (liftP (py_i32 (env_pyo3 E) dirfd)) (\<lambda>dirfd. bindP
      (liftP (py_i32 (env_pyo3 E) flags)) (\<lambda>flags. bindP (liftP (py_u32
      (env_pyo3 E) mode)) (\<lambda>mode. bindP (liftP (py_u8 (env_pyo3 E) fl))
      (\<lambda>fl. ret (dirfd, path, flags, mode, fl)))))" E]
  by (simp add: ffi_prep_openat_def bindP_assoc reads_bindP)

lemma close_submission:
  "submission E (\<lambda>ud. bindP (unwrap_file f) (\<lambda>fd. ffi_prep_close E fd ud fl))"
  using ffi_close.after_reading [of
    "\<lambda>_. bindP (unwrap_file f) (\<lambda>fd. bindP (liftP (py_i32 (env_pyo3 E)
      fd)) (\<lambda>fd. bindP (liftP (py_u8 (env_pyo3 E) fl)) (\<lambda>fl. ret (fd,
      fl))))" E]
  by (simp add: ffi_prep_close_def bindP_assoc reads_bindP)

lemma read_submission:
  "submission E (\<lambda>ud. bindP (unwrap_file f) (\<lambda>fd. ffi_prep_read E fd n off ud fl))"
  using ffi_read.after_reading [of
    "\<lambda>_. bindP (unwrap_file f) (\<lambda>fd. bindP (liftP (py_i32 (env_pyo3 E)
      fd)) (\<lambda>fd. bindP (liftP (py_u32 (env_pyo3 E) n)) (\<lambda>n. bindP (liftP
      (py_i64 (env_pyo3 E) off)) (\<lambda>off. bindP (liftP (py_u8 (env_pyo3 E) fl))
      (\<lambda>fl. ret (fd, n, off, fl))))))" E]
  by (simp add: ffi_prep_read_def bindP_assoc reads_bindP)

lemma write_submission:
  "submission E (\<lambda>ud. bindP (unwrap_file f) (\<lambda>fd. ffi_prep_write E fd buf sz start off ud fl))"
  using ffi_write.after_reading [of
    "\<lambda>_. bindP (unwrap_file f) (\<lambda>fd. bindP (liftP (py_i32 (env_pyo3 E)
      fd)) (\<lambda>fd. bindP (liftP (py_bytes (env_pyo3 E) buf)) (\<lambda>buf. bindP
      (liftP (py_usize (env_pyo3 E) sz)) (\<lambda>sz. bindP (liftP (py_usize (env_pyo3
      E) start)) (\<lambda>start. bindP (liftP (py_i64 (env_pyo3 E) off)) (\<lambda>off.
      bindP (liftP (py_u8 (env_pyo3 E) fl)) (\<lambda>fl. ret (fd, buf, sz, start, off,
      fl))))))))" E]
  by (simp add: ffi_prep_write_def bindP_assoc reads_bindP)

lemma create_socket_submission:
  "submission E (\<lambda>ud. ffi_prep_create_socket E domain kind protocol ud fl)"
  using ffi_create_socket.after_reading [of
    "\<lambda>_. bindP (liftP (py_i32 (env_pyo3 E) domain)) (\<lambda>domain. bindP
      (liftP (py_i32 (env_pyo3 E) kind)) (\<lambda>kind. bindP (liftP (py_i32 (env_pyo3
      E) protocol)) (\<lambda>protocol. bindP (liftP (py_u8 (env_pyo3 E) fl))
      (\<lambda>fl. ret (domain, kind, protocol, fl)))))" E]
  by (simp add: ffi_prep_create_socket_def bindP_assoc reads_bindP)

lemma connect_v4_submission:
  "submission E (\<lambda>ud. bindP (unwrap_file f) (\<lambda>fd. ffi_prep_connect_v4 E fd ip port ud fl))"
  using ffi_connect_v4.after_reading [of
    "\<lambda>_. bindP (unwrap_file f) (\<lambda>fd. bindP (liftP (py_i32 (env_pyo3 E)
      fd)) (\<lambda>fd. bindP (liftP (py_u16 (env_pyo3 E) port)) (\<lambda>port. bindP
      (liftP (py_u8 (env_pyo3 E) fl)) (\<lambda>fl. ret (fd, ip, port, fl)))))" E]
  by (simp add: ffi_prep_connect_v4_def bindP_assoc reads_bindP)

lemma connect_v6_submission:
  "submission E (\<lambda>ud. bindP (unwrap_file f) (\<lambda>fd. ffi_prep_connect_v6 E fd ip port ud fl))"
  using ffi_connect_v6.after_reading [of
    "\<lambda>_. bindP (unwrap_file f) (\<lambda>fd. bindP (liftP (py_i32 (env_pyo3 E)
      fd)) (\<lambda>fd. bindP (liftP (py_u16 (env_pyo3 E) port)) (\<lambda>port. bindP
      (liftP (py_u8 (env_pyo3 E) fl)) (\<lambda>fl. ret (fd, ip, port, fl)))))" E]
  by (simp add: ffi_prep_connect_v6_def bindP_assoc reads_bindP)

lemma recv_submission:
  "submission E (\<lambda>ud. bindP (unwrap_file f) (\<lambda>fd. ffi_prep_recv E fd n flags ud fl))"
  using ffi_recv.after_reading [of
    "\<lambda>_. bindP (unwrap_file f) (\<lambda>fd. bindP (liftP (py_i32 (env_pyo3 E)
      fd)) (\<lambda>fd. bindP (liftP (py_u32 (env_pyo3 E) n)) (\<lambda>n. bindP (liftP
      (py_i32 (env_pyo3 E) flags)) (\<lambda>flags. bindP (liftP (py_u8 (env_pyo3 E)
      fl)) (\<lambda>fl. ret (fd, n, flags, fl))))))" E]
  by (simp add: ffi_prep_recv_def bindP_assoc reads_bindP)

lemma send_submission:
  "submission E (\<lambda>ud. bindP (unwrap_file f) (\<lambda>fd. ffi_prep_send E fd buf sz start flags ud fl))"
  using ffi_send.after_reading [of
    "\<lambda>_. bindP (unwrap_file f) (\<lambda>fd. bindP (liftP (py_i32 (env_pyo3 E)
      fd)) (\<lambda>fd. bindP (liftP (py_bytes (env_pyo3 E) buf)) (\<lambda>buf. bindP
      (liftP (py_usize (env_pyo3 E) sz)) (\<lambda>sz. bindP (liftP (py_usize (env_pyo3
      E) start)) (\<lambda>start. bindP (liftP (py_i32 (env_pyo3 E) flags))
      (\<lambda>flags. bindP (liftP (py_u8 (env_pyo3 E) fl)) (\<lambda>fl. ret (fd, buf,
      sz, start, flags, fl))))))))" E]
  by (simp add: ffi_prep_send_def bindP_assoc reads_bindP)

text \<open>What follows a submission without touching the ring or its memory.\<close>

lemma submission_after:
  assumes sub: "submission E op"
    and quiet: "\<And>s. ring (f s) = ring s \<and> heap (f s) = heap s \<and> brk (f s) = brk s"
  shows "submission E (\<lambda>ud. bindP (op ud) (\<lambda>_. modP f))"
proof
  note sub = sub [unfolded submission_def]
  have run: "snd (bindP m (\<lambda>_. modP f) s) = (if isl (fst (m s)) then snd (m s) else f (snd (m s)))"
    "fst (bindP m (\<lambda>_. modP f) s) = fst (m s)" for m :: "(('a, 'c) st_scheme, unit) prog" and s
    by (cases "m s"; cases "fst (m s)"; simp add: bindP_def)+
  show "contract E ud (bindP (op ud) (\<lambda>_. modP f))" for ud
    using sub [THEN conjunct1, rule_format, of ud]
    unfolding contract_def run by (auto simp: quiet)
  show "preserves E ud (bindP (op ud) (\<lambda>_. modP f))" for ud
    using sub [THEN conjunct2, THEN conjunct1, rule_format, of ud]
    unfolding preserves_def run by (auto simp: quiet ring_inv_def mem_ok_def ring_live_def)
  show "undisturbed E ud (bindP (op ud) (\<lambda>_. modP f))" for ud
    using sub [THEN conjunct2, THEN conjunct2, rule_format, of ud]
    unfolding undisturbed_def run by (auto simp: quiet ring_live_def)
qed

text \<open>The methods in the shape of the rules.\<close>

lemma guarded_method:
  "submission E op \<Longrightarrow> reads g \<Longrightarrow> prep_method E (bindP g (\<lambda>_. numbered op))"
  by (rule prep_method_reads) (simp_all add: submission.numbered_method)

lemma reading_method:
  "(\<And>x. submission E (op x)) \<Longrightarrow> reads g \<Longrightarrow> prep_method E (bindP g (\<lambda>x. numbered (op x)))"
  by (rule prep_method_reads) (simp_all add: submission.numbered_method)

lemma reads_openat_dirfd [simp, intro]: "reads (openat_dirfd dir)"
  by (cases dir rule: openat_dirfd.cases) simp_all

lemma prep_openat_method: "prep_method E (prep_openat E dir path mode flags perms fl)"
  unfolding prep_openat_def Let_def numbered_def [symmetric]
  by (intro reading_method openat_submission) simp

lemma prep_close_obj:
  "prep_close E (FdObj h) fl = numbered (\<lambda>ud. bindP (bindP (unwrap_file (FdObj h))
     (\<lambda>fd. ffi_prep_close E fd ud (sqe_flags_or_0 fl))) (\<lambda>_. mark_closed (as_handle h)))"
  by (simp add: prep_close_def numbered_def bindP_assoc)

lemma prep_close_int:
  "prep_close E (FdInt i) fl = numbered (\<lambda>ud. bindP (unwrap_file (FdInt i))
     (\<lambda>fd. ffi_prep_close E fd ud (sqe_flags_or_0 fl)))"
  by (simp add: prep_close_def numbered_def del: ret_app)

lemma prep_close_method: "prep_method E (prep_close E f fl)"
proof (cases f)
  case (FdInt i)
  then show ?thesis
    by (simp only: prep_close_int submission.numbered_method [OF close_submission])
next
  case (FdObj h)
  show ?thesis
    unfolding FdObj prep_close_obj mark_closed_def
    by (rule submission.numbered_method [OF submission_after [OF close_submission]]) simp
qed

lemma prep_read_method: "prep_method E (prep_read E f n off fl)"
  unfolding prep_read_def Let_def numbered_after
  by (intro guarded_method read_submission) simp

lemma prep_write_method: "prep_method E (prep_write E f buf off n start fl)"
  unfolding prep_write_def Let_def numbered_after
  by (intro guarded_method write_submission) simp

lemma prep_create_socket_method: "prep_method E (prep_create_socket E domain kind protocol nb fl)"
  unfolding prep_create_socket_def Let_def numbered_def [symmetric]
  by (intro submission.numbered_method create_socket_submission)

lemma prep_connect_v4_method: "prep_method E (prep_connect_v4 E f address port fl)"
  unfolding prep_connect_v4_def Let_def numbered_after
  by (intro submission.numbered_method connect_v4_submission)

lemma prep_connect_v6_method: "prep_method E (prep_connect_v6 E f address port fl)"
  unfolding prep_connect_v6_def Let_def numbered_after
  by (intro submission.numbered_method connect_v6_submission)

lemma prep_recv_method: "prep_method E (prep_recv E f n flags fl)"
  unfolding prep_recv_def Let_def numbered_after
  by (intro submission.numbered_method recv_submission)

lemma prep_send_method: "prep_method E (prep_send E f buf n start flags fl)"
  unfolding prep_send_def Let_def numbered_after
  by (intro submission.numbered_method send_submission)

interpretation api: prep_method E "perform E req" for E req
  by (cases req)
    (simp_all add: prep_openat_method prep_close_method prep_read_method prep_write_method
      prep_create_socket_method prep_connect_v4_method prep_connect_v6_method prep_recv_method
      prep_send_method)

end
