(* ===== verification/Sample_State.thy ===== *)
theory Sample_State
  imports Handle
begin

text \<open>
  A state for the witnesses: a new ring of the sample environment, with a submission queue of two
  entries, and one open handle on descriptor 7.
\<close>

definition sample_state :: "(sim, int list) py" where
  "sample_state = \<lparr>
     ring = \<lparr>the_io_uring = Some \<lparr>sim_cap = 2, sim_sq = [], sim_cq = []\<rparr>, probe = (\<lambda>_. True),
       user_data_counter = 0, autosubmit_on = True, owned_data = Map.empty\<rparr>,
     heap = Map.empty, brk = 0,
     handles = (\<lambda>_. \<lparr>fd_num = 7, close_flag = False\<rparr>), next_href = 1, files = []\<rparr>"

lemma sample_state_created:
  "create_io_ring sample_env 2 0 0 True True = Inr (ring sample_state)"
  by (simp add: create_io_ring_def sample_state_def sample_env_def sim_uring_def builder_config_def
      supported_kernel_def)

lemma sample_heap: "\<forall>b \<in> dom (heap sample_state). b < brk sample_state"
  by (simp add: sample_state_def)

end
