(* ===== verification/Api_Run.thy ===== *)
theory Api_Run
  imports Api Sample_State
begin

text \<open>
  The histories of a program that uses one ring through the Python interface, as a step relation
  labelled with the calls and their outcomes, and the invariants of everything reachable.
\<close>

section \<open>Steps\<close>

text \<open>Two states with the same ring and the same memory.\<close>

definition same_ring :: "('r, 'y) st_scheme \<Rightarrow> ('r, 'z) st_scheme \<Rightarrow> bool" where
  "same_ring s t \<longleftrightarrow> ring s = ring t \<and> heap s = heap t \<and> brk s = brk t"

lemma same_ring_sym: "same_ring s t \<Longrightarrow> same_ring t s"
  by (simp add: same_ring_def)

lemma same_ring_trans: "same_ring s t \<Longrightarrow> same_ring t u \<Longrightarrow> same_ring s u"
  by (simp add: same_ring_def)

datatype call =
    Request request
  | Submit
  | Submit_And_Wait int
  | Submit_And_Wait_With_Timeout int int
  | Get_Completion_Entries
  | Register_Eventfd "int option"
  | Close_Ring
  | Use_Handle handle_use href
  | Handle_Of_Event completion_event
  | Elsewhere

datatype outcome =
    Value "exn + u64"
  | Events "exn + completion_event list"
  | Done

text \<open>
  A call and its outcome; \<open>Done\<close> stands for the outcomes no property looks at. A call of
  \<open>get_completion_entries\<close> that does not return is no step. \<open>Elsewhere\<close> is whatever else the
  program does: it may change anything but the ring and the memory of the Rust side.
\<close>

inductive api_step ::
  "('r, 'w) env \<Rightarrow> ('r, 'w, 'z) py_scheme \<Rightarrow> call \<times> outcome \<Rightarrow> ('r, 'w, 'z) py_scheme \<Rightarrow> bool"
  for E where
  step_request: "perform E req s = (x, t) \<Longrightarrow> api_step E s (Request req, Value x) t"
| step_submit: "io_submit E s = (x, t) \<Longrightarrow> api_step E s (Submit, Done) t"
| step_wait: "submit_and_wait E n s = (x, t) \<Longrightarrow> api_step E s (Submit_And_Wait n, Done) t"
| step_wait_timeout: "submit_and_wait_with_timeout E sec nsec s = (x, t) \<Longrightarrow>
    api_step E s (Submit_And_Wait_With_Timeout sec nsec, Done) t"
| step_reap: "io_get_completion_entries E s = Some (x, t) \<Longrightarrow>
    api_step E s (Get_Completion_Entries, Events x) t"
| step_eventfd: "io_register_eventfd E f s = (x, t) \<Longrightarrow> api_step E s (Register_Eventfd f, Done) t"
| step_close: "close_ring s = (x, t) \<Longrightarrow> api_step E s (Close_Ring, Done) t"
| step_handle: "t = use (close_handle E) (exit_handle E) mark_closed u h s \<Longrightarrow>
    api_step E s (Use_Handle u h, Done) t"
| step_event: "from_completion_event ev s = (x, t) \<Longrightarrow> api_step E s (Handle_Of_Event ev, Done) t"
| step_elsewhere: "same_ring s t \<Longrightarrow> api_step E s (Elsewhere, Done) t"

inductive_cases request_stepE: "api_step E s (Request req, v) t"
inductive_cases reap_stepE: "api_step E s (Get_Completion_Entries, v) t"

inductive api_run ::
  "('r, 'w) env \<Rightarrow> ('r, 'w, 'z) py_scheme \<Rightarrow> (call \<times> outcome) list \<Rightarrow> ('r, 'w, 'z) py_scheme \<Rightarrow> bool"
  for E where
  run_nil: "api_run E s [] s"
| run_snoc: "api_run E s ls t \<Longrightarrow> api_step E t l u \<Longrightarrow> api_run E s (ls @ [l]) u"

section \<open>What the calls leave alone\<close>

lemma same_ring_inv: "same_ring s t \<Longrightarrow> ring_inv live s = ring_inv live t"
  by (simp add: same_ring_def ring_inv_def mem_ok_def ring_live_def)

lemma same_ring_handle: "same_ring (use (close_handle E) (exit_handle E) mark_closed u h s) s"
  by (cases u) (simp_all add: same_ring_def exit_handle_snd close_handle_fields mark_closed_def)

lemma same_ring_event: "same_ring (snd (from_completion_event ev s)) s"
  by (simp add: same_ring_def from_completion_event_def new_fd_handle_def bindP_def
      split: sum.split prod.split)

lemma eventfd_call_same: "same_ring (snd (os_eventfd_call E i fl s)) s"
  by (simp add: same_ring_def os_eventfd_call_def split: prod.split sum.split)

text \<open>The counter and the table change only in a request and in \<open>get_completion_entries\<close>.\<close>

abbreviation same_table :: "('r, 'z) st_scheme \<Rightarrow> ('r, 'z) st_scheme \<Rightarrow> bool" where
  "same_table s t \<equiv> user_data_counter (ring t) = user_data_counter (ring s) \<and>
     owned_data (ring t) = owned_data (ring s)"

lemma same_table_refl_trans: "reflp same_table" "transp same_table"
  by (simp_all add: reflp_def transp_def)

lemma keeps_table_basic:
  "keeps same_table (submit E)" "keeps same_table (wait_cqes E n)"
  "keeps same_table (push_timeout E e)" "keeps same_table (register_eventfd E fd)"
  "keeps same_table close_ring"
  by (simp_all add: keeps_def submit_def wait_cqes_def push_timeout_def register_eventfd_def
      close_ring_def split: option.split prod.split)

lemma keeps_table_eventfd: "keeps same_table (os_eventfd_call E i fl)"
  by (simp add: keeps_def eventfd_call_same [unfolded same_ring_def])

lemma keeps_table_calls:
  "keeps same_table (io_submit E)" "keeps same_table (submit_and_wait E n)"
  "keeps same_table (submit_and_wait_with_timeout E sec nsec)"
  "keeps same_table (io_register_eventfd E f)"
  unfolding io_submit_def submit_and_wait_def submit_and_wait_with_timeout_def
    io_register_eventfd_def wait_with_timeout_def
  by (intro keeps_intros keeps_table_basic keeps_table_eventfd same_table_refl_trans;
      cases f; simp add: keeps_table_eventfd keeps_intros same_table_refl_trans)+

text \<open>The other calls keep the invariant too.\<close>

abbreviation keeps_inv :: "('r \<Rightarrow> sqe multiset) \<Rightarrow> (('r, 'z) st_scheme, 'a) prog \<Rightarrow> bool" where
  "keeps_inv live \<equiv> keeps (\<lambda>s t. ring_inv live s \<longrightarrow> ring_inv live t)"

lemma keeps_inv_refl_trans:
  "reflp (\<lambda>s t. ring_inv live s \<longrightarrow> ring_inv live t)"
  "transp (\<lambda>s t. ring_inv live s \<longrightarrow> ring_inv live t)"
  by (auto simp: reflp_def transp_def)

lemma keeps_inv_basic:
  assumes "uring_laws (env_ring E) live"
  shows "keeps_inv live (submit E)" "keeps_inv live (wait_cqes E n)"
    "keeps_inv live (wait_with_timeout E sec nsec)" "keeps_inv live (register_eventfd E fd)"
    "keeps_inv live close_ring"
  using assms
  by (simp_all add: keeps_def ring_inv_submit ring_inv_wait_cqes ring_inv_wait_with_timeout
      ring_inv_register_eventfd ring_inv_close)

lemma keeps_inv_eventfd: "keeps_inv live (os_eventfd_call E i fl)"
  by (simp add: keeps_def same_ring_inv [OF eventfd_call_same])

lemma keeps_inv_calls:
  assumes "uring_laws (env_ring E) live"
  shows "keeps_inv live (io_submit E)" "keeps_inv live (submit_and_wait E n)"
    "keeps_inv live (submit_and_wait_with_timeout E sec nsec)"
    "keeps_inv live (io_register_eventfd E f)"
  unfolding io_submit_def submit_and_wait_def submit_and_wait_with_timeout_def
    io_register_eventfd_def
  by (intro keeps_intros keeps_inv_basic assms keeps_inv_eventfd keeps_inv_refl_trans;
      cases f; simp add: keeps_inv_eventfd keeps_intros keeps_inv_refl_trans)+

section \<open>One step\<close>

text \<open>The outcome of a request is its value; the values of a history in order.\<close>

fun issued_by :: "outcome \<Rightarrow> u64 list" where
  "issued_by (Value (Inr u)) = [u]"
| "issued_by _ = []"

definition issued :: "(call \<times> outcome) list \<Rightarrow> u64 list" where
  "issued ls = concat (map (issued_by \<circ> snd) ls)"

text \<open>The values whose buffers a history handed to Python.\<close>

definition buffers_of :: "completion_event list \<Rightarrow> u64 list" where
  "buffers_of evs = map ev_user_data (filter (\<lambda>ev. ev_buffer ev \<noteq> None) evs)"

fun delivered_by :: "outcome \<Rightarrow> u64 list" where
  "delivered_by (Events (Inr evs)) = buffers_of evs"
| "delivered_by _ = []"

definition delivered :: "(call \<times> outcome) list \<Rightarrow> u64 list" where
  "delivered ls = concat (map (delivered_by \<circ> snd) ls)"

lemma history_lists [simp]:
  "issued [] = []" "issued (ls @ [l]) = issued ls @ issued_by (snd l)"
  "delivered [] = []" "delivered (ls @ [l]) = delivered ls @ delivered_by (snd l)"
  by (simp_all add: issued_def delivered_def)

lemma reap_entry_buffer:
  "ev_buffer (fst (reap_entry c s)) \<noteq> None \<Longrightarrow> cqe_user_data c \<in> dom (owned_data (ring s))"
  by (auto simp: reap_entry_def Let_def split: option.splits)

lemma reap_entries_buffers:
  "distinct (buffers_of (fst (reap_entries cs s))) \<and>
   set (buffers_of (fst (reap_entries cs s))) \<subseteq> dom (owned_data (ring s)) \<inter> cqe_user_data ` set cs"
proof (induction cs arbitrary: s)
  case Nil
  then show ?case by (simp add: buffers_of_def)
next
  case (Cons c cs)
  let ?s1 = "snd (reap_entry c s)"
  have own: "dom (owned_data (ring ?s1)) = dom (owned_data (ring s)) - {cqe_user_data c}"
    by (auto simp: reap_entry_fields)
  have split: "buffers_of (fst (reap_entries (c # cs) s)) =
      (if ev_buffer (fst (reap_entry c s)) \<noteq> None then [cqe_user_data c] else []) @
      buffers_of (fst (reap_entries cs ?s1))"
    unfolding reap_entries_Cons by (simp add: buffers_of_def reap_entry_fields)
  show ?case
    unfolding split using Cons.IH [of ?s1] reap_entry_buffer [of c s] unfolding own by auto
qed

text \<open>What a step does to the counter and the table, and what it reports.\<close>

definition step_facts :: "('r, 'z) st_scheme \<Rightarrow> outcome \<Rightarrow> ('r, 'z) st_scheme \<Rightarrow> bool" where
  "step_facts s v t \<longleftrightarrow>
     (let c = user_data_counter (ring s); c' = user_data_counter (ring t);
          D = dom (owned_data (ring s)); D' = dom (owned_data (ring t))
      in (c' = c \<or> c' = c + 1) \<and> (issued_by v = [] \<and> D' \<subseteq> D \<or> issued_by v = [c] \<and> c' = c + 1 \<and> D' \<subseteq> insert c D) \<and>
         distinct (delivered_by v) \<and> set (delivered_by v) \<subseteq> D \<and> set (delivered_by v) \<inter> D' = {})"

lemma step_facts_same:
  "same_table s t \<Longrightarrow> issued_by v = [] \<Longrightarrow> delivered_by v = [] \<Longrightarrow> step_facts s v t"
  by (simp add: step_facts_def)

lemma step_facts_keeps:
  assumes "keeps same_table m" "m s = (x, t)"
  shows "step_facts s Done t"
  using keepsD [OF assms(1), of s] assms(2) by (intro step_facts_same) simp_all

lemma step_facts_request:
  assumes "perform E req s = (x, t)"
  shows "step_facts s (Value x) t"
proof (cases x)
  case (Inl e)
  with assms api.meth_error [of E req s] api.meth_counter [of E req s]
  show ?thesis by (simp add: step_facts_def)
next
  case (Inr u)
  have "dom (owned_data (ring t)) \<subseteq> insert (user_data_counter (ring s)) (dom (owned_data (ring s)))"
    using api.meth_others [of _ s E req] assms by (fastforce simp: domIff)
  with Inr assms api.meth_value [of E req s u t] show ?thesis by (simp add: step_facts_def)
qed

lemma step_facts_reap:
  assumes "get_completion_entries E s = Some (x, t)"
  shows "step_facts s (Events x) t"
  using assms
proof (cases rule: get_completion_entriesE)
  case closed
  then show ?thesis by (simp add: step_facts_def)
next
  case (reaped r es r' m')
  have "issued_by (Events x) = []" by simp
  moreover have "delivered_by (Events x) = buffers_of (fst (reap_entries es (entered r' m' s)))"
    by (simp add: reaped(3))
  ultimately show ?thesis
    using reap_entries_buffers [of es "entered r' m' s"]
    by (auto simp: step_facts_def reaped(4) reap_entries_fields)
qed

lemma step_step_facts: "api_step E s l t \<Longrightarrow> step_facts s (snd l) t"
proof (induction rule: api_step.induct)
  case (step_handle t u h s)
  with same_ring_handle [of E u h s] show ?case
    by (intro step_facts_same) (simp_all add: same_ring_def)
next
  case (step_event ev s x t)
  with same_ring_event [of ev s] show ?case
    by (intro step_facts_same) (simp_all add: same_ring_def)
next
  case (step_elsewhere s t)
  then show ?case by (intro step_facts_same) (simp_all add: same_ring_def)
qed (auto intro: step_facts_request step_facts_reap step_facts_keeps [OF keeps_table_calls(1)]
      step_facts_keeps [OF keeps_table_calls(2)] step_facts_keeps [OF keeps_table_calls(3)]
      step_facts_keeps [OF keeps_table_calls(4)] step_facts_keeps [OF keeps_table_basic(5)])

lemma keeps_invD: "keeps_inv live m \<Longrightarrow> m s = (x, t) \<Longrightarrow> ring_inv live s \<Longrightarrow> ring_inv live t"
  by (auto dest: keepsD [of _ m s])

lemma step_inv:
  assumes laws: "uring_laws (env_ring E) live"
  shows "api_step E s l t \<Longrightarrow> ring_inv live s \<Longrightarrow> user_data_counter (ring s) < 2 ^ 63 \<Longrightarrow>
    ring_inv live t"
proof (induction rule: api_step.induct)
  case (step_request req s x t)
  then show ?case using api.meth_inv [OF laws, of s req] by simp
next
  case (step_handle t u h s)
  then show ?case by (simp add: same_ring_inv [OF same_ring_handle])
next
  case (step_event ev s x t)
  then show ?case using same_ring_inv [OF same_ring_event, of live ev s] by simp
next
  case (step_elsewhere s t)
  then show ?case by (simp add: same_ring_inv)
next
  case (step_reap s x t)
  then show ?case using ring_inv_get_completion_entries [OF laws] by blast
qed (blast intro: keeps_invD keeps_inv_calls [OF laws] keeps_inv_basic [OF laws])+

section \<open>Everything reachable\<close>

lemma should_be_ignored_iff: "should_be_ignored ev \<longleftrightarrow> bit (ev_user_data ev) 63"
  by (simp only: should_be_ignored_def push_bit_of_1 and_exp_eq_0_iff_not_bit not_not)

lemma create_fields:
  assumes "create_io_ring E n cq idle single auto = Inr g"
  shows "user_data_counter g = 0" "owned_data g = Map.empty"
  using assms by (auto simp: create_io_ring_def Let_def split: if_splits sum.splits)

lemma step_counter_bound:
  assumes "step_facts s v t" "unat (user_data_counter (ring s)) \<le> n" "n < 2 ^ 63"
  shows "unat (user_data_counter (ring t)) \<le> Suc n"
    and "issued_by v = [u] \<Longrightarrow> u = user_data_counter (ring s) \<and> u < user_data_counter (ring t)"
    and "user_data_counter (ring s) \<le> user_data_counter (ring t)"
proof -
  let ?c = "user_data_counter (ring s)"
  have up: "unat (?c + 1) = Suc (unat ?c)"
    using assms(2,3) by (intro unat_Suc_no_wrap) simp
  then show "unat (user_data_counter (ring t)) \<le> Suc n"
    "issued_by v = [u] \<Longrightarrow> u = ?c \<and> u < user_data_counter (ring t)"
    "?c \<le> user_data_counter (ring t)"
    using assms(1,2)
    by (auto simp: step_facts_def Let_def word_less_nat_alt word_le_nat_alt)
qed

text \<open>What holds of the values and buffers of a history: \<open>us\<close> were issued and \<open>ds\<close> delivered.\<close>

definition numbers_ok :: "nat \<Rightarrow> u64 list \<Rightarrow> u64 list \<Rightarrow> ('r, 'z) st_scheme \<Rightarrow> bool" where
  "numbers_ok n us ds t \<longleftrightarrow> unat (user_data_counter (ring t)) \<le> n \<and>
     sorted_wrt (<) us \<and> (\<forall>u \<in> set us. u < user_data_counter (ring t)) \<and>
     dom (owned_data (ring t)) \<subseteq> set us \<and> distinct ds \<and> set ds \<subseteq> set us \<and>
     set ds \<inter> dom (owned_data (ring t)) = {}"

lemma numbers_ok_delivered:
  assumes ok: "numbers_ok n us ds t" and facts: "step_facts t v u" and new: "issued_by v = []"
    and n: "n < 2 ^ 63"
  shows "numbers_ok (Suc n) us (ds @ delivered_by v) u"
proof -
  have c: "unat (user_data_counter (ring t)) \<le> n" using ok by (simp add: numbers_ok_def)
  note bound = step_counter_bound [OF facts c n]
  have d: "dom (owned_data (ring u)) \<subseteq> dom (owned_data (ring t))" "distinct (delivered_by v)"
    "set (delivered_by v) \<subseteq> dom (owned_data (ring t))"
    "set (delivered_by v) \<inter> dom (owned_data (ring u)) = {}"
    using facts new by (simp_all add: step_facts_def Let_def)
  have "x < user_data_counter (ring u)" if "x \<in> set us" for x
    using ok that bound(3) unfolding numbers_ok_def by (meson less_le_trans)
  with ok d bound(1) show ?thesis unfolding numbers_ok_def distinct_append set_append by blast
qed

lemma numbers_ok_issued:
  assumes ok: "numbers_ok n us ds t" and facts: "step_facts t v u" and new: "issued_by v \<noteq> []"
    and n: "n < 2 ^ 63"
  shows "numbers_ok (Suc n) (us @ issued_by v) (ds @ delivered_by v) u"
proof -
  let ?c = "user_data_counter (ring t)"
  have c: "unat ?c \<le> n" using ok by (simp add: numbers_ok_def)
  note bound = step_counter_bound [OF facts c n]
  have iss: "issued_by v = [?c]" using facts new by (auto simp: step_facts_def Let_def)
  then have del: "delivered_by v = []" by (cases v) auto
  have own: "dom (owned_data (ring u)) \<subseteq> insert ?c (dom (owned_data (ring t)))"
    using facts by (auto simp: step_facts_def Let_def)
  have lt: "x < user_data_counter (ring u)" if "x \<in> set us \<or> x = ?c" for x
    using ok that bound(2) [OF iss] bound(3) unfolding numbers_ok_def by (meson less_le_trans)
  have "?c \<notin> set us" "set ds \<subseteq> set us" using ok unfolding numbers_ok_def by blast+
  then have "set ds \<inter> dom (owned_data (ring u)) = {}" using ok own unfolding numbers_ok_def by blast
  moreover have "dom (owned_data (ring u)) \<subseteq> set (us @ [?c])"
    using ok own unfolding numbers_ok_def by (simp del: domIff) blast
  ultimately show ?thesis
    using ok lt bound(1) unfolding numbers_ok_def iss del by (auto simp: sorted_wrt_append)
qed

lemma run_numbers:
  assumes "api_run E s ls t" "user_data_counter (ring s) = 0" "owned_data (ring s) = Map.empty"
  shows "length ls \<le> 2 ^ 63 \<Longrightarrow> numbers_ok (length ls) (issued ls) (delivered ls) t"
  using assms
proof (induction rule: api_run.induct)
  case (run_nil s)
  then show ?case by (simp add: numbers_ok_def)
next
  case (run_snoc s ls t l u)
  have facts: "step_facts t (snd l) u" using run_snoc.hyps(2) by (rule step_step_facts)
  have n: "length ls < 2 ^ 63" using run_snoc.prems(1) by simp
  note IH = run_snoc.IH [OF less_imp_le [OF n] run_snoc.prems(2,3)]
  show ?case
  proof (cases "issued_by (snd l) = []")
    case True
    with numbers_ok_delivered [OF IH facts True n] show ?thesis by simp
  next
    case False
    with numbers_ok_issued [OF IH facts False n] show ?thesis by simp
  qed
qed

lemmas run_facts = run_numbers [unfolded numbers_ok_def]

lemma run_inv:
  assumes laws: "uring_laws (env_ring E) live"
  shows "api_run E s ls t \<Longrightarrow> user_data_counter (ring s) = 0 \<Longrightarrow> owned_data (ring s) = Map.empty \<Longrightarrow>
    ring_inv live s \<Longrightarrow> length ls \<le> 2 ^ 63 \<Longrightarrow> ring_inv live t"
proof (induction rule: api_run.induct)
  case (run_nil s)
  then show ?case by simp
next
  case (run_snoc s ls t l u)
  have n: "length ls < 2 ^ 63" using run_snoc.prems(4) by simp
  then have "unat (user_data_counter (ring t)) < 2 ^ 63"
    using run_facts [OF run_snoc.hyps(1) run_snoc.prems(1,2)] by linarith
  then have "user_data_counter (ring t) < 2 ^ 63" by (simp add: word_less_nat_alt)
  moreover have "ring_inv live t"
    using run_snoc.IH run_snoc.prems n by simp
  ultimately show ?case using step_inv [OF laws run_snoc.hyps(2)] by blast
qed

lemma created_run_inv:
  assumes "uring_laws (env_ring E) live" "create_io_ring E n cq idle single auto = Inr (ring s)"
    and "\<forall>b \<in> dom (heap s). b < brk s" "api_run E s ls t" "length ls \<le> 2 ^ 63"
  shows "ring_inv live t"
  using run_inv [OF assms(1,4) create_fields [OF assms(2)] _ assms(5)]
    ring_inv_create [OF assms(1,2,3)] by simp

section \<open>Running a history\<close>

text \<open>Every call but a \<open>get_completion_entries\<close> that loops has exactly one outcome.\<close>

fun exec_call ::
  "('r, 'w) env \<Rightarrow> call \<Rightarrow> ('r, 'w, 'z) py_scheme \<Rightarrow> (outcome \<times> ('r, 'w, 'z) py_scheme) option" where
  "exec_call E (Request req) s = (case perform E req s of (x, t) \<Rightarrow> Some (Value x, t))"
| "exec_call E Submit s = Some (Done, snd (io_submit E s))"
| "exec_call E (Submit_And_Wait n) s = Some (Done, snd (submit_and_wait E n s))"
| "exec_call E (Submit_And_Wait_With_Timeout sec nsec) s =
     Some (Done, snd (submit_and_wait_with_timeout E sec nsec s))"
| "exec_call E Get_Completion_Entries s =
     map_option (\<lambda>(x, t). (Events x, t)) (get_completion_entries E s)"
| "exec_call E (Register_Eventfd f) s = Some (Done, snd (io_register_eventfd E f s))"
| "exec_call E Close_Ring s = Some (Done, snd (close_ring s))"
| "exec_call E (Use_Handle u h) s =
     Some (Done, use (close_handle E) (exit_handle E) mark_closed u h s)"
| "exec_call E (Handle_Of_Event ev) s = Some (Done, snd (from_completion_event ev s))"
| "exec_call E Elsewhere s = Some (Done, s)"

lemma exec_call_step: "exec_call E c s = Some (v, t) \<Longrightarrow> api_step E s (c, v) t"
  by (cases c)
    (auto simp: same_ring_def intro: step_request step_reap step_handle step_elsewhere
      step_submit [OF surjective_pairing] step_wait [OF surjective_pairing]
      step_wait_timeout [OF surjective_pairing] step_eventfd [OF surjective_pairing]
      step_close [OF surjective_pairing] step_event [OF surjective_pairing] split: prod.splits)

fun exec_calls ::
  "('r, 'w) env \<Rightarrow> call list \<Rightarrow> (call \<times> outcome) list \<times> ('r, 'w, 'z) py_scheme \<Rightarrow>
     ((call \<times> outcome) list \<times> ('r, 'w, 'z) py_scheme) option" where
  "exec_calls E [] (ls, s) = Some (ls, s)"
| "exec_calls E (c # cs) (ls, s) =
     (case exec_call E c s of None \<Rightarrow> None
      | Some (v, t) \<Rightarrow> exec_calls E cs (ls @ [(c, v)], t))"

lemma exec_calls_run:
  "api_run E s ls t \<Longrightarrow> exec_calls E cs (ls, t) = Some (ls', u) \<Longrightarrow> api_run E s ls' u"
proof (induction cs arbitrary: ls t)
  case Nil
  then show ?case by simp
next
  case (Cons c cs)
  then obtain v t' where step: "exec_call E c t = Some (v, t')"
    and rest: "exec_calls E cs (ls @ [(c, v)], t') = Some (ls', u)"
    by (auto split: option.splits)
  from Cons.IH [OF run_snoc [OF Cons.prems(1) exec_call_step [OF step]] rest] show ?case .
qed

text \<open>A history of the sample state.\<close>

definition sample_calls :: "call list" where
  "sample_calls = [Request (Prep_Read (FdInt 3) 4 (-1) None),
     Request (Prep_Write (FdInt 3) (Bytes [1, 2]) (-1) None None None), Submit,
     Get_Completion_Entries, Request (Prep_Read (FdInt 3) 4 (-1) None)]"

lemma sample_run:
  "\<exists>ls t. api_run sample_env sample_state ls t \<and> length ls = 5 \<and> issued ls = [0, 1, 2] \<and>
     delivered ls = [0, 1] \<and> ring_live sim_live t \<noteq> {#}"
proof -
  have "case exec_calls sample_env sample_calls ([], sample_state) of None \<Rightarrow> False
    | Some (ls, t) \<Rightarrow> length ls = 5 \<and> issued ls = [0, 1, 2] \<and> delivered ls = [0, 1] \<and>
        (case the_io_uring (ring t) of None \<Rightarrow> False | Some r \<Rightarrow> sim_sq r \<noteq> [])"
    by code_simp
  then obtain ls t where "exec_calls sample_env sample_calls ([], sample_state) = Some (ls, t)"
    and facts: "length ls = 5" "issued ls = [0, 1, 2]" "delivered ls = [0, 1]"
      "case the_io_uring (ring t) of None \<Rightarrow> False | Some r \<Rightarrow> sim_sq r \<noteq> []"
    by (auto split: option.splits)
  then have "api_run sample_env sample_state ls t"
    using exec_calls_run [OF run_nil] by blast
  moreover have "ring_live sim_live t \<noteq> {#}"
    using facts(4) by (auto simp: ring_live_def sim_live_def split: option.splits)
  ultimately show ?thesis using facts(1-3) by blast
qed

section \<open>Properties\<close>

text \<open>C1: memory safety of the whole interface. In every state a program can reach from a new
  ring by fewer than \<open>2 ^ 63\<close> calls, in any order and whatever they raise, each operation the
  kernel may still be working on finds the memory its pointers name allocated, large enough for
  what the kernel may touch, and owned by the ring under the operation's own \<open>user_data\<close>; and no
  two entries of the table own the same memory.\<close>

theorem api_memory_safe:
  assumes "uring_laws (env_ring E) live"
    and "create_io_ring E n cq idle single auto = Inr (ring s)" "\<forall>b \<in> dom (heap s). b < brk s"
    and "api_run E s ls t" "length ls \<le> 2 ^ 63"
  shows "(\<forall>e \<in># ring_live live t. \<forall>b \<in> sqe_blocks e. \<exists>d bs.
            owned_data (ring t) (sqe_user_data e) = Some d \<and> b \<in> set (owned_blocks d) \<and>
            heap t b = Some bs \<and> op_fits (op_of e) bs) \<and>
         (\<forall>u v d d'. owned_data (ring t) u = Some d \<longrightarrow> owned_data (ring t) v = Some d' \<longrightarrow>
            u \<noteq> v \<longrightarrow> set (owned_blocks d) \<inter> set (owned_blocks d') = {})"
  using created_run_inv [OF assms] by (simp add: ring_inv_def covered_def mem_ok_def)

theorem api_memory_safe_witness:
  "\<exists>ls t. api_run sample_env sample_state ls t \<and> ring_live sim_live t \<noteq> {#} \<and>
     (\<forall>e \<in># ring_live sim_live t. \<forall>b \<in> sqe_blocks e. \<exists>d bs.
        owned_data (ring t) (sqe_user_data e) = Some d \<and> b \<in> set (owned_blocks d) \<and>
        heap t b = Some bs \<and> op_fits (op_of e) bs)"
proof -
  obtain ls t where run: "api_run sample_env sample_state ls t" "length ls = 5"
    "ring_live sim_live t \<noteq> {#}" using sample_run by blast
  with api_memory_safe [OF sample_env_laws(3) sample_state_created sample_heap run(1)]
  show ?thesis by (intro exI [of _ ls] exI [of _ t]) simp
qed

text \<open>C12: the values the \<open>prep_\<close> methods return never repeat. Along any history of a new ring of at
  most \<open>2 ^ 63\<close> calls they are strictly increasing, and none has the top bit that makes
  \<open>should_be_ignored\<close> drop its completion.\<close>

theorem user_data_never_repeats:
  assumes "create_io_ring E n cq idle single auto = Inr (ring s)"
    and "api_run E s ls t" "length ls \<le> 2 ^ 63"
  shows "sorted_wrt (<) (issued ls) \<and>
    (\<forall>u \<in> set (issued ls). \<forall>res buf.
       \<not> should_be_ignored \<lparr>ev_user_data = u, ev_result = res, ev_buffer = buf\<rparr>)"
proof -
  note facts = run_facts [OF assms(2) create_fields [OF assms(1)] assms(3)]
  have "\<not> bit u 63" if "u \<in> set (issued ls)" for u
  proof -
    have "unat u < 2 ^ 63"
      using facts that assms(3) by (fastforce simp: word_less_nat_alt)
    then have "\<not> bit (unat u) 63" by (simp add: bit_iff_odd)
    then show ?thesis by (simp add: bit_unsigned_iff)
  qed
  with facts show ?thesis by (simp add: should_be_ignored_iff)
qed

theorem user_data_never_repeats_witness:
  "\<exists>ls t. api_run sample_env sample_state ls t \<and> issued ls = [0, 1, 2] \<and>
     sorted_wrt (<) (issued ls)"
proof -
  obtain ls t where run: "api_run sample_env sample_state ls t" "length ls = 5"
    "issued ls = [0, 1, 2]" using sample_run by blast
  with user_data_never_repeats [OF sample_state_created run(1)]
  show ?thesis by (intro exI [of _ ls] exI [of _ t]) simp
qed

text \<open>C13: the memory of a submission is handed to Python at most once. Over any history of a new
  ring no two completion events carry the buffer of the same submission, every buffer belongs to a
  submission made before, and once delivered the ring owns it no longer.\<close>

theorem buffers_delivered_once:
  assumes "create_io_ring E n cq idle single auto = Inr (ring s)"
    and "api_run E s ls t" "length ls \<le> 2 ^ 63"
  shows "distinct (delivered ls) \<and> set (delivered ls) \<subseteq> set (issued ls) \<and>
    set (delivered ls) \<inter> dom (owned_data (ring t)) = {}"
  using run_facts [OF assms(2) create_fields [OF assms(1)] assms(3)] by blast

theorem buffers_delivered_once_witness:
  "\<exists>ls t. api_run sample_env sample_state ls t \<and> delivered ls = [0, 1] \<and>
     distinct (delivered ls) \<and> set (delivered ls) \<subseteq> set (issued ls)"
proof -
  obtain ls t where run: "api_run sample_env sample_state ls t" "length ls = 5"
    "delivered ls = [0, 1]" using sample_run by blast
  with buffers_delivered_once [OF sample_state_created run(1)]
  show ?thesis by (intro exI [of _ ls] exI [of _ t]) simp
qed

end
