(* ===== verification/Client_Frame.thy ===== *)
theory Client_Frame
  imports Api_Run
begin

text \<open>
  What a client of \<open>IoUring\<close> keeps for itself. A client extends the state of the Python program
  with fields of its own; no operation of the ring touches them, whatever it returns or raises.
  The locale \<open>completion_source\<close> is what the asynchronous manager asks of its ring; it is
  interpreted on the model of \<^verbatim>\<open>ring.py\<close>.
\<close>

section \<open>The frame of every operation\<close>

abbreviation same_client :: "('r, 'w, 'z) py_scheme \<Rightarrow> ('r, 'w, 'z) py_scheme \<Rightarrow> bool" where
  "same_client s t \<equiv> py.more t = py.more s"

abbreviation frames :: "(('r, 'w, 'z) py_scheme, 'a) prog \<Rightarrow> bool" where
  "frames \<equiv> keeps same_client"

lemma same_client_refl_trans: "reflp same_client" "transp same_client"
  by (simp_all add: reflp_def transp_def)

named_theorems framed

lemma frames_basic [framed]:
  "frames get_next_user_data" "frames (autosubmit E e)" "frames (require_support c n)"
  "frames (refuse_skip_success E w)" "frames (alloc bs)" "frames (add_owned_path u b)"
  "frames (add_owned_buffer u b)" "frames (add_owned_sockaddr u b)" "frames (mark_closed h)"
  "frames (unwrap_file f)" "frames (openat_dirfd dir)" "frames (submit E)"
  "frames (wait_cqes E want)" "frames (push_timeout E e)" "frames (register_eventfd E fd)"
  "frames close_ring" "frames (os_eventfd_call E i fl)" "frames (new_fd_handle i)"
  "frames (os_close_call E i)"
  by (simp_all add: keeps_def get_next_user_data_def autosubmit_def require_support_def bindP_app
      guardP_def refuse_skip_success_def alloc_def add_owned_path_def add_owned_buffer_def
      add_owned_sockaddr_def owned_insert_def free_blocks_def mark_closed_def submit_def wait_cqes_def
      push_timeout_def register_eventfd_def close_ring_def os_eventfd_call_def new_fd_handle_def
      os_close_call_def unwrap_file_app Let_def del: unwrap_file.simps
      split: option.split prod.split sum.split acceptable_file.split)
    (cases dir rule: openat_dirfd.cases; simp)

lemma frames_or_drop [framed]: "frames m \<Longrightarrow> frames (or_drop b m)"
  by (auto simp: keeps_def or_drop_def free_blocks_def split: prod.split sum.split)
    (metis snd_conv)+

lemmas frame_rules = keeps_bindP [OF same_client_refl_trans(2)]
  keeps_ret [OF same_client_refl_trans(1)] keeps_getP [OF same_client_refl_trans(1)]
  keeps_liftP [OF same_client_refl_trans(1)] keeps_guardP [OF same_client_refl_trans(1)]
  framed

lemma frames_ffi [framed]:
  "frames (ffi_prep_openat E i path ud n perms fl)" "frames (ffi_prep_close E i ud fl)"
  "frames (ffi_prep_read E i n off ud fl)" "frames (ffi_prep_write E i buf sz start off ud fl)"
  "frames (ffi_prep_create_socket E domain k protocol ud fl)"
  "frames (ffi_prep_connect_v4 E i ip port ud fl)" "frames (ffi_prep_connect_v6 E i ip port ud fl)"
  "frames (ffi_prep_recv E i n flags ud fl)" "frames (ffi_prep_send E i buf sz start flags ud fl)"
  unfolding ffi_prep_openat_def ffi_prep_close_def ffi_prep_read_def ffi_prep_write_def
    ffi_prep_create_socket_def ffi_prep_connect_v4_def ffi_prep_connect_v6_def ffi_prep_recv_def
    ffi_prep_send_def ffi_defs do_sockaddr_submit_def Let_def
  by (intro frame_rules)+

lemma frames_case:
  "(\<And>i. frames (m i)) \<Longrightarrow> (\<And>h. frames (g h)) \<Longrightarrow>
     frames (case f of FdInt i \<Rightarrow> m i | FdObj h \<Rightarrow> g h)"
  "frames k \<Longrightarrow> (\<And>x. frames (l x)) \<Longrightarrow> frames (case z of None \<Rightarrow> k | Some x \<Rightarrow> l x)"
  by (cases f; simp) (cases z; simp)

lemma frames_perform [framed]: "frames (perform E req)"
  by (cases req; simp only: perform.simps prep_close_def prep_openat_def prep_read_def prep_write_def
      prep_create_socket_def prep_connect_v4_def prep_connect_v6_def prep_recv_def prep_send_def
      Let_def; intro frame_rules framed frames_case)

lemma frames_calls [framed]:
  "frames (io_submit E)" "frames (submit_and_wait E n)"
  "frames (submit_and_wait_with_timeout E sec nsec)" "frames (io_register_eventfd E f)"
  "frames (from_completion_event ev)"
  unfolding io_submit_def submit_and_wait_def submit_and_wait_with_timeout_def
    io_register_eventfd_def wait_with_timeout_def from_completion_event_def
  by (intro frame_rules framed frames_case)+

lemma frames_handle: "same_client s (use (close_handle E) (exit_handle E) mark_closed u h s)"
  by (cases u) (simp_all add: exit_handle_snd close_handle_def try_finally_def os_close_call_def
      mark_closed_def split: prod.split option.split)

lemma reap_entries_client: "py.more (snd (reap_entries es s)) = py.more s"
proof (induction es arbitrary: s)
  case Nil
  then show ?case by simp
next
  case (Cons e es)
  have "py.more (snd (reap_entry e s)) = py.more s"
    by (simp add: reap_entry_def Let_def free_blocks_def split: option.split owned_data.split)
  with Cons.IH show ?case unfolding reap_entries_Cons by simp
qed

lemma get_completion_entries_client:
  assumes "get_completion_entries E s = Some (x, t)"
  shows "py.more t = py.more s"
  using assms
proof (cases rule: get_completion_entriesE)
  case (reaped r es r' m')
  then show ?thesis by (simp add: reap_entries_client entered_def)
qed simp

lemma framesD: "frames m \<Longrightarrow> m s = (x, t) \<Longrightarrow> py.more t = py.more s"
  by (auto dest: keepsD [of _ m s])

lemma api_step_client: "api_step E s l t \<Longrightarrow> fst l \<noteq> Elsewhere \<Longrightarrow> py.more t = py.more s"
proof (induction rule: api_step.induct)
  case (step_reap s x t)
  then show ?case by (simp add: get_completion_entries_client)
next
  case (step_handle t u h s)
  then show ?case by (simp add: frames_handle)
qed (auto dest: framesD [OF frames_perform] framesD [OF frames_calls(1)] framesD [OF frames_calls(2)]
    framesD [OF frames_calls(3)] framesD [OF frames_calls(4)] framesD [OF frames_calls(5)]
    framesD [OF frames_basic(16)])

section \<open>What the manager asks of its ring\<close>

text \<open>
  \<open>own\<close> is what the client keeps in the state, \<open>table\<close> what the provider holds for it. Neither
  call touches the client; fetching entries fails without an effect or releases what it reports.
\<close>

locale completion_source =
  fixes flush :: "('s, nat) prog"
    and entries :: "'s \<Rightarrow> ((exn + completion_event list) \<times> 's) option"
    and own :: "'s \<Rightarrow> 'c" and table :: "'s \<Rightarrow> u64 \<rightharpoonup> 'd"
  assumes flush_own: "own (snd (flush s)) = own s"
    and flush_table: "table (snd (flush s)) = table s"
    and entries_own: "entries s = Some (x, t) \<Longrightarrow> own t = own s"
    and entries_raise: "entries s = Some (Inl e, t) \<Longrightarrow> e = ValueError RingClosed \<and> t = s"
    and entries_release: "entries s = Some (Inr evs, t) \<Longrightarrow> ev \<in> set evs \<Longrightarrow>
        table t (ev_user_data ev) = None"
    and entries_keep: "entries s = Some (Inr evs, t) \<Longrightarrow> u \<notin> ev_user_data ` set evs \<Longrightarrow>
        table t u = table s u"
begin

lemma entries_cases:
  assumes "entries s = Some (x, t)"
  obtains (raised) "x = Inl (ValueError RingClosed)" "t = s"
  | (fetched) evs where "x = Inr evs" "own t = own s"
      "table t = table s |` (- ev_user_data ` set evs)"
proof (cases x)
  case (Inl e)
  with assms entries_raise raised show ?thesis by blast
next
  case (Inr evs)
  with assms have run: "entries s = Some (Inr evs, t)" by simp
  have "table t = table s |` (- ev_user_data ` set evs)"
    using entries_release [OF run] entries_keep [OF run] by (fastforce simp: restrict_map_def)
  with Inr entries_own [OF run] show ?thesis by (rule fetched)
qed

lemma entries_shrink:
  assumes "entries s = Some (x, t)"
  shows "table t \<subseteq>\<^sub>m table s"
  using assms by (cases rule: entries_cases) (auto simp: map_le_def restrict_map_def)

text \<open>What is released stays released by later flushes and fetches.\<close>

lemma released_stays:
  assumes "entries s = Some (Inr evs, t)" "ev \<in> set evs" "entries (snd (flush t)) = Some (y, u)"
  shows "table u (ev_user_data ev) = None"
proof -
  have "table (snd (flush t)) (ev_user_data ev) = None"
    using entries_release [OF assms(1,2)] by (simp add: flush_table)
  with entries_shrink [OF assms(3)] show ?thesis by (metis domIff map_le_implies_dom_le subsetD)
qed

end

lemma reap_entries_uds: "ev_user_data ` set (fst (reap_entries es s)) = cqe_user_data ` set es"
proof (induction es arbitrary: s)
  case Nil
  then show ?case by simp
next
  case (Cons e es)
  then show ?case unfolding reap_entries_Cons by (simp add: reap_entry_fields)
qed

lemma owned_after_entries:
  assumes "get_completion_entries E s = Some (Inr evs, t)"
  shows "owned_data (ring t) = owned_data (ring s) |` (- ev_user_data ` set evs)"
  using assms
  by (cases rule: get_completion_entriesE) (simp_all add: reap_entries_fields reap_entries_uds)

interpretation source: completion_source "io_submit E" "get_completion_entries E" py.more
    "\<lambda>s. owned_data (ring s)" for E
proof unfold_locales
  show "py.more (snd (io_submit E s)) = py.more s" for s
    by (rule keepsD [OF frames_calls(1)])
  show "owned_data (ring (snd (io_submit E s))) = owned_data (ring s)" for s
    using keepsD [OF keeps_table_calls(1), where s = s and E1 = E] by simp
  show "py.more t = py.more s" if "get_completion_entries E s = Some (x, t)" for s x t
    using that by (rule get_completion_entries_client)
  show "e = ValueError RingClosed \<and> t = s" if "get_completion_entries E s = Some (Inl e, t)" for s e t
    using that by (cases rule: get_completion_entriesE) simp_all
  show "owned_data (ring t) (ev_user_data ev) = None"
    if "get_completion_entries E s = Some (Inr evs, t)" "ev \<in> set evs" for s evs t ev
    using that(2) by (simp add: owned_after_entries [OF that(1)])
  show "owned_data (ring t) u = owned_data (ring s) u"
    if "get_completion_entries E s = Some (Inr evs, t)" "u \<notin> ev_user_data ` set evs" for s evs t u
    using that(2) by (simp add: owned_after_entries [OF that(1)])
qed

end
