(* ===== verification/Anyio.thy ===== *)
theory Anyio
  imports Ring_Core
begin

text \<open>
  The memory object streams of \<^verbatim>\<open>anyio\<close>, a parameter of the model: the operations the manager
  calls, as a record, and their documented behaviour, as \<open>stream_laws\<close> over a view of each stream.
  The streams the manager makes have a buffer of size 0, so a value goes straight from
  \<open>send_nowait\<close> to a task that is waiting in \<open>receive\<close>.
\<close>

section \<open>The operations\<close>

text \<open>
  \<open>'q\<close> is the state of all streams; a stream is named by a number, its two ends share it. A call
  of \<open>receive\<close> is in three parts, since other tasks run in between: \<open>sm_receive\<close> is the task
  joining the receivers of the stream, \<open>sm_received\<close> is what it has been handed so far, and it
  returns once that is a value.
\<close>

type_synonym stream = nat

record 'q stream_api =
  sm_create :: "'q \<Rightarrow> stream \<times> 'q"
  sm_send_nowait :: "stream \<Rightarrow> completion_event \<Rightarrow> 'q \<Rightarrow> (exn + unit) \<times> 'q"
  sm_close_send :: "stream \<Rightarrow> 'q \<Rightarrow> 'q"
  sm_close_receive :: "stream \<Rightarrow> 'q \<Rightarrow> 'q"
  sm_receive :: "stream \<Rightarrow> 'q \<Rightarrow> (exn + unit) \<times> 'q"
  sm_received :: "stream \<Rightarrow> 'q \<Rightarrow> completion_event option"

section \<open>Their documented behaviour\<close>

record stream_view =
  sv_send_open :: bool
  sv_recv_open :: bool
  sv_waiting :: bool
  sv_item :: "completion_event option"

definition new_stream :: stream_view where
  "new_stream = \<lparr>sv_send_open = True, sv_recv_open = True, sv_waiting = False, sv_item = None\<rparr>"

text \<open>The errors of \<open>send_nowait\<close>, in the order they are looked for; \<open>None\<close> hands the value over.\<close>

definition send_error :: "stream_view \<Rightarrow> exn option" where
  "send_error v =
     (if \<not> sv_send_open v then Some ClosedResourceError
      else if \<not> sv_recv_open v then Some BrokenResourceError
      else if \<not> sv_waiting v then Some WouldBlock
      else None)"

definition handed :: "completion_event \<Rightarrow> stream_view \<Rightarrow> stream_view" where
  "handed ev v = v\<lparr>sv_waiting := False, sv_item := Some ev\<rparr>"

definition stream_laws :: "'q stream_api \<Rightarrow> ('q \<Rightarrow> stream \<rightharpoonup> stream_view) \<Rightarrow> bool" where
  "stream_laws A view \<longleftrightarrow>
     (\<forall>q h q'. sm_create A q = (h, q') \<longrightarrow>
        view q h = None \<and> view q' = (view q)(h \<mapsto> new_stream)) \<and>
     (\<forall>q h v ev. view q h = Some v \<longrightarrow>
        (case send_error v of
           Some e \<Rightarrow> sm_send_nowait A h ev q = (Inl e, q)
         | None \<Rightarrow> \<exists>q'. sm_send_nowait A h ev q = (Inr (), q') \<and> view q' = (view q)(h \<mapsto> handed ev v))) \<and>
     (\<forall>q h v. view q h = Some v \<longrightarrow> \<not> sv_waiting v \<longrightarrow>
        view (sm_close_send A h q) = (view q)(h \<mapsto> v\<lparr>sv_send_open := False\<rparr>)) \<and>
     (\<forall>q h v. view q h = Some v \<longrightarrow>
        view (sm_close_receive A h q) = (view q)(h \<mapsto> v\<lparr>sv_recv_open := False, sv_waiting := False\<rparr>)) \<and>
     (\<forall>q h v. view q h = Some v \<longrightarrow> v = new_stream \<longrightarrow>
        (\<exists>q'. sm_receive A h q = (Inr (), q') \<and> view q' = (view q)(h \<mapsto> v\<lparr>sv_waiting := True\<rparr>))) \<and>
     (\<forall>q h v. view q h = Some v \<longrightarrow> sm_received A h q = sv_item v)"

lemma stream_lawsD:
  assumes "stream_laws A view"
  shows "sm_create A q = (h, q') \<Longrightarrow> view q h = None \<and> view q' = (view q)(h \<mapsto> new_stream)"
    and "view q h = Some v \<Longrightarrow> send_error v = Some e \<Longrightarrow> sm_send_nowait A h ev q = (Inl e, q)"
    and "view q h = Some v \<Longrightarrow> send_error v = None \<Longrightarrow>
      \<exists>q'. sm_send_nowait A h ev q = (Inr (), q') \<and> view q' = (view q)(h \<mapsto> handed ev v)"
    and "view q h = Some v \<Longrightarrow> \<not> sv_waiting v \<Longrightarrow>
      view (sm_close_send A h q) = (view q)(h \<mapsto> v\<lparr>sv_send_open := False\<rparr>)"
    and "view q h = Some v \<Longrightarrow>
      view (sm_close_receive A h q) = (view q)(h \<mapsto> v\<lparr>sv_recv_open := False, sv_waiting := False\<rparr>)"
    and "view q h = Some new_stream \<Longrightarrow> \<exists>q'. sm_receive A h q = (Inr (), q') \<and>
      view q' = (view q)(h \<mapsto> new_stream\<lparr>sv_waiting := True\<rparr>)"
    and "view q h = Some v \<Longrightarrow> sm_received A h q = sv_item v"
proof -
  note L = assms [unfolded stream_laws_def]
  note L2 = L [THEN conjunct2]
  note L3 = L2 [THEN conjunct2]
  note L4 = L3 [THEN conjunct2]
  note L5 = L4 [THEN conjunct2]
  show "sm_create A q = (h, q') \<Longrightarrow> view q h = None \<and> view q' = (view q)(h \<mapsto> new_stream)"
    using L [THEN conjunct1] by simp
  show "view q h = Some v \<Longrightarrow> send_error v = Some e \<Longrightarrow> sm_send_nowait A h ev q = (Inl e, q)"
    using L2 [THEN conjunct1, rule_format, of q h v ev] by simp
  show "view q h = Some v \<Longrightarrow> send_error v = None \<Longrightarrow>
      \<exists>q'. sm_send_nowait A h ev q = (Inr (), q') \<and> view q' = (view q)(h \<mapsto> handed ev v)"
    using L2 [THEN conjunct1, rule_format, of q h v ev] by simp
  show "view q h = Some v \<Longrightarrow> \<not> sv_waiting v \<Longrightarrow>
      view (sm_close_send A h q) = (view q)(h \<mapsto> v\<lparr>sv_send_open := False\<rparr>)"
    using L3 [THEN conjunct1] by simp
  show "view q h = Some v \<Longrightarrow>
      view (sm_close_receive A h q) = (view q)(h \<mapsto> v\<lparr>sv_recv_open := False, sv_waiting := False\<rparr>)"
    using L4 [THEN conjunct1] by simp
  show "view q h = Some new_stream \<Longrightarrow> \<exists>q'. sm_receive A h q = (Inr (), q') \<and>
      view q' = (view q)(h \<mapsto> new_stream\<lparr>sv_waiting := True\<rparr>)"
    using L5 [THEN conjunct1] by simp
  show "view q h = Some v \<Longrightarrow> sm_received A h q = sv_item v"
    using L5 [THEN conjunct2] by simp
qed

section \<open>Streams for the witnesses\<close>

definition list_view :: "stream_view list \<Rightarrow> stream \<rightharpoonup> stream_view" where
  "list_view q h = (if h < length q then Some (q ! h) else None)"

definition list_send :: "stream \<Rightarrow> completion_event \<Rightarrow> stream_view list \<Rightarrow>
    (exn + unit) \<times> stream_view list" where
  "list_send h ev q = (case send_error (q ! h) of
     Some e \<Rightarrow> (Inl e, q) | None \<Rightarrow> (Inr (), q[h := handed ev (q ! h)]))"

definition sample_streams :: "stream_view list stream_api" where
  "sample_streams = \<lparr>
     sm_create = (\<lambda>q. (length q, q @ [new_stream])),
     sm_send_nowait = list_send,
     sm_close_send = (\<lambda>h q. q[h := (q ! h)\<lparr>sv_send_open := False\<rparr>]),
     sm_close_receive = (\<lambda>h q. q[h := (q ! h)\<lparr>sv_recv_open := False, sv_waiting := False\<rparr>]),
     sm_receive = (\<lambda>h q. (Inr (), q[h := (q ! h)\<lparr>sv_waiting := True\<rparr>])),
     sm_received = (\<lambda>h q. sv_item (q ! h))\<rparr>"

lemma list_view_update: "h < length q \<Longrightarrow> list_view (q[h := v]) = (list_view q)(h \<mapsto> v)"
  by (auto simp: list_view_def fun_eq_iff)

lemma list_view_append: "list_view (q @ [v]) = (list_view q)(length q \<mapsto> v)"
  by (auto simp: list_view_def fun_eq_iff nth_append)

lemma list_view_SomeD: "list_view q h = Some v \<Longrightarrow> h < length q \<and> q ! h = v"
  by (simp add: list_view_def split: if_splits)

lemma sample_streams_laws: "stream_laws sample_streams list_view"
  unfolding stream_laws_def
  by (auto simp: sample_streams_def list_send_def list_view_append list_view_update
      dest!: list_view_SomeD split: option.split)
    (simp add: list_view_def)

end
