(* ===== verification/Manager.thy ===== *)
theory Manager
  imports Client_Frame Anyio
begin

text \<open>
  \<^verbatim>\<open>aio/manager.py\<close>: the class \<open>UringIoManager\<close>. Tasks interleave only at an \<open>await\<close>, so each method
  is given by its pieces between two of them, and every piece runs without interruption. The ring
  the manager holds is the ring of the state.
\<close>

section \<open>State\<close>

text \<open>The keys of \<open>_completion_waiters\<close> are Python integers; a value is the send end of a stream.\<close>

record uring_io_manager =
  efd :: int
  force_submissions :: bool
  completion_waiters :: "int \<rightharpoonup> stream"

text \<open>
  A call of \<open>wait_for_completion\<close> in some task, by its arguments and where it is: its stream
  registered but not yet waited on, waiting, or over by returning, raising or being cancelled.
\<close>

datatype wait_state =
    Entered stream
  | Receiving stream
  | Returned stream completion_event
  | Raised "stream option" exn
  | Cancelled stream

record wait_task =
  wt_user_data :: int
  wt_autoraise :: bool
  wt_state :: wait_state

datatype dispatcher_state = Not_Started | Running | Failed exn | Stopped

record ('r, 'w, 'q) aio = "('r, 'w) py" +
  manager :: uring_io_manager
  streams :: 'q
  tasks :: "nat \<rightharpoonup> wait_task"
  dispatcher :: dispatcher_state

section \<open>Calls of streams\<close>

definition create_memory_object_stream ::
  "'q stream_api \<Rightarrow> (('r, 'w, 'q, 'z) aio_scheme, stream) prog" where
  "create_memory_object_stream A = (\<lambda>s. case sm_create A (streams s) of
     (h, q) \<Rightarrow> (Inr h, s\<lparr>streams := q\<rparr>))"

definition send_nowait ::
  "'q stream_api \<Rightarrow> stream \<Rightarrow> completion_event \<Rightarrow> (('r, 'w, 'q, 'z) aio_scheme, unit) prog" where
  "send_nowait A h ev = (\<lambda>s. case sm_send_nowait A h ev (streams s) of
     (x, q) \<Rightarrow> (x, s\<lparr>streams := q\<rparr>))"

definition close_send ::
  "'q stream_api \<Rightarrow> stream \<Rightarrow> (('r, 'w, 'q, 'z) aio_scheme, unit) prog" where
  "close_send A h = modP (\<lambda>s. s\<lparr>streams := sm_close_send A h (streams s)\<rparr>)"

definition close_receive ::
  "'q stream_api \<Rightarrow> stream \<Rightarrow> ('r, 'w, 'q, 'z) aio_scheme \<Rightarrow> ('r, 'w, 'q, 'z) aio_scheme" where
  "close_receive A h s = s\<lparr>streams := sm_close_receive A h (streams s)\<rparr>"

section \<open>\<open>_dispatch_event_results\<close>\<close>

text \<open>\<open>dict.pop\<close> with a default.\<close>

definition pop_waiter :: "int \<Rightarrow> (('r, 'w, 'q, 'z) aio_scheme, stream option) prog" where
  "pop_waiter user_data = (\<lambda>s.
     (Inr (completion_waiters (manager s) user_data),
      s\<lparr>manager := (manager s)
          \<lparr>completion_waiters := (completion_waiters (manager s))(user_data := None)\<rparr>\<rparr>))"

text \<open>The body of the loop over the events; both \<open>continue\<close>s of an error and the \<open>else\<close> of the
  \<open>try\<close> are the cases of the outcome of \<open>send_nowait\<close>.\<close>

definition dispatch_event ::
  "'q stream_api \<Rightarrow> completion_event \<Rightarrow> (('r, 'w, 'q, 'z) aio_scheme, unit) prog" where
  "dispatch_event A dispatched =
     (if should_be_ignored dispatched then ret ()
      else bindP (pop_waiter (uint (ev_user_data dispatched))) (\<lambda>waiter.
        case waiter of
          None \<Rightarrow> ret ()
        | Some waiter \<Rightarrow> (\<lambda>s. case send_nowait A waiter dispatched s of
              (Inl e, t) \<Rightarrow>
                if e = WouldBlock \<or> e = BrokenResourceError then (Inr (), t) else (Inl e, t)
            | (Inr _, t) \<Rightarrow> close_send A waiter t)))"

fun dispatch_events ::
  "'q stream_api \<Rightarrow> completion_event list \<Rightarrow> (('r, 'w, 'q, 'z) aio_scheme, unit) prog" where
  "dispatch_events A [] = ret ()"
| "dispatch_events A (ev # evs) = bindP (dispatch_event A ev) (\<lambda>_. dispatch_events A evs)"

definition os_read_call :: "('r, 'w) env \<Rightarrow> int \<Rightarrow> nat \<Rightarrow> (('r, 'w, 'z) py_scheme, u8 list) prog" where
  "os_read_call E fd n = (\<lambda>s. case os_read (env_os E) fd n (files s) of
     (Inl errno, w) \<Rightarrow> (Inl (OSError (Some errno)), s\<lparr>files := w\<rparr>)
   | (Inr bs, w) \<Rightarrow> (Inr bs, s\<lparr>files := w\<rparr>))"

text \<open>
  One turn of the endless loop, from the return of \<open>wait_readable\<close> to the next call of it; the
  events are returned for the record. \<^term>\<open>None\<close> is a \<open>get_completion_entries\<close> that loops.
\<close>

definition dispatch_round ::
  "('r, 'w) env \<Rightarrow> 'q stream_api \<Rightarrow> ('r, 'w, 'q, 'z) aio_scheme \<Rightarrow>
     ((exn + completion_event list) \<times> ('r, 'w, 'q, 'z) aio_scheme) option" where
  "dispatch_round E A s = (case os_read_call E (efd (manager s)) 8 s of
     (Inl e, t) \<Rightarrow> Some (Inl e, t)
   | (Inr _, t) \<Rightarrow> map_option (\<lambda>(x, u). case x of
         Inl e \<Rightarrow> (Inl e, u)
       | Inr evs \<Rightarrow> (case dispatch_events A evs u of
             (Inl e, v) \<Rightarrow> (Inl e, v)
           | (Inr _, v) \<Rightarrow> (Inr evs, v))) (io_get_completion_entries E t))"

section \<open>\<open>wait_for_completion\<close>\<close>

text \<open>Up to the \<open>await\<close> of \<open>receive\<close>.\<close>

definition wait_enter ::
  "('r, 'w) env \<Rightarrow> 'q stream_api \<Rightarrow> int \<Rightarrow> (('r, 'w, 'q, 'z) aio_scheme, stream) prog" where
  "wait_enter E A user_data =
     bindP (getP (\<lambda>s. force_submissions (manager s))) (\<lambda>force.
     bindP (if force then bindP (io_submit E) (\<lambda>_. ret ()) else ret ()) (\<lambda>_.
     bindP (create_memory_object_stream A) (\<lambda>h.
     bindP (modP (\<lambda>s. s\<lparr>manager := (manager s)\<lparr>completion_waiters :=
        (completion_waiters (manager s))(user_data \<mapsto> h)\<rparr>\<rparr>)) (\<lambda>_. ret h))))"

text \<open>From the return of \<open>receive\<close>; \<open>async with\<close> closes the receive end on every way out.\<close>

definition wait_return ::
  "'q stream_api \<Rightarrow> stream \<Rightarrow> bool \<Rightarrow> completion_event \<Rightarrow>
     (('r, 'w, 'q, 'z) aio_scheme, completion_event) prog" where
  "wait_return A h autoraise cqe =
     try_finally
       (bindP (if autoraise then liftP (raise_for_cqe cqe) else ret ()) (\<lambda>_. ret cqe))
       (close_receive A h)"

text \<open>What the call makes of its completion.\<close>

definition outcome_of :: "bool \<Rightarrow> completion_event \<Rightarrow> exn + completion_event" where
  "outcome_of autoraise cqe =
     (if autoraise then (case raise_for_cqe cqe of Inl e \<Rightarrow> Inl e | Inr _ \<Rightarrow> Inr cqe) else Inr cqe)"

lemma wait_return_eq: "wait_return A h autoraise cqe s = (outcome_of autoraise cqe, close_receive A h s)"
  by (simp add: wait_return_def outcome_of_def try_finally_def bindP_app split: sum.split)

section \<open>What a round does\<close>

lemma restrict_map_UNIV: "m |` UNIV = m"
  by (simp add: restrict_map_def)

text \<open>The first event of a round that is for \<open>u\<close>.\<close>

definition addressed :: "int \<Rightarrow> completion_event \<Rightarrow> bool" where
  "addressed u ev \<longleftrightarrow> \<not> should_be_ignored ev \<and> uint (ev_user_data ev) = u"

definition first_event :: "completion_event list \<Rightarrow> int \<Rightarrow> completion_event option" where
  "first_event evs u = find (addressed u) evs"

lemma first_event_Nil [simp]: "first_event [] u = None"
  by (simp add: first_event_def)

lemma first_event_Cons:
  "first_event (ev # evs) u = (if addressed u ev then Some ev else first_event evs u)"
  by (simp add: first_event_def)

lemma first_event_SomeD: "first_event evs u = Some ev \<Longrightarrow> ev \<in> set evs \<and> addressed u ev"
  by (auto simp: first_event_def find_Some_iff)

text \<open>A registered stream can be sent on, and is registered once.\<close>

definition waiters_ok :: "('q \<Rightarrow> stream \<rightharpoonup> stream_view) \<Rightarrow> ('r, 'w, 'q, 'z) aio_scheme \<Rightarrow> bool" where
  "waiters_ok view s \<longleftrightarrow>
     (\<forall>u h. completion_waiters (manager s) u = Some h \<longrightarrow>
        (\<exists>v. view (streams s) h = Some v \<and> sv_send_open v)) \<and>
     inj_on (completion_waiters (manager s)) (dom (completion_waiters (manager s)))"

text \<open>What becomes of a stream whose waiter gets an event.\<close>

definition offered :: "completion_event \<Rightarrow> stream_view \<Rightarrow> stream_view" where
  "offered ev v =
     (if send_error v = None then (handed ev v)\<lparr>sv_send_open := False\<rparr> else v)"

text \<open>The effect of dispatching, without its loop.\<close>

definition dispatched ::
  "('q \<Rightarrow> stream \<rightharpoonup> stream_view) \<Rightarrow> completion_event list \<Rightarrow>
     ('r, 'w, 'q, 'z) aio_scheme \<Rightarrow> ('r, 'w, 'q, 'z) aio_scheme \<Rightarrow> bool" where
  "dispatched view evs s t \<longleftrightarrow>
     (\<exists>q. t = s\<lparr>manager := (manager s)\<lparr>completion_waiters :=
             completion_waiters (manager s) |` {u. first_event evs u = None}\<rparr>, streams := q\<rparr> \<and>
        (\<forall>h. h \<notin> ran (completion_waiters (manager s)) \<longrightarrow> view q h = view (streams s) h) \<and>
        (\<forall>u h. completion_waiters (manager s) u = Some h \<longrightarrow>
           view q h = (case first_event evs u of
              None \<Rightarrow> view (streams s) h
            | Some ev \<Rightarrow> map_option (offered ev) (view (streams s) h))))"

lemma first_of_one: "first_event [ev] u =
    (if \<not> should_be_ignored ev \<and> u = uint (ev_user_data ev) then Some ev else None)"
  by (auto simp: first_event_Cons addressed_def)

lemma waiters_left: "W |` {u. first_event [ev] u = None} =
    (if should_be_ignored ev then W else W(uint (ev_user_data ev) := None))"
  by (auto simp: first_of_one restrict_map_def fun_eq_iff)

text \<open>An event nobody is registered for is dropped.\<close>

lemma dispatch_event_dropped:
  assumes drop: "should_be_ignored ev \<or> completion_waiters (manager s) (uint (ev_user_data ev)) = None"
  shows "dispatch_event A ev s = (Inr (), s) \<and> dispatched view [ev] s s"
proof
  show "dispatch_event A ev s = (Inr (), s)"
  proof (cases "should_be_ignored ev")
    case False
    then have "(manager s)\<lparr>completion_waiters :=
        (completion_waiters (manager s))(uint (ev_user_data ev) := None)\<rparr> = manager s"
      using drop by (simp add: fun_upd_idem)
    with False drop show ?thesis by (simp add: dispatch_event_def pop_waiter_def bindP_def)
  qed (simp add: dispatch_event_def)
  have W: "completion_waiters (manager s) |` {u. first_event [ev] u = None} = completion_waiters (manager s)"
    unfolding waiters_left using drop by (auto simp: fun_upd_idem)
  show "dispatched view [ev] s s"
    unfolding dispatched_def W using drop by (intro exI [of _ "streams s"]) (auto simp: first_of_one)
qed

text \<open>Another one is offered to the stream of its waiter, whatever state that is in.\<close>

lemma dispatch_event_sent:
  assumes L: "stream_laws A view" and live: "\<not> should_be_ignored ev"
    and h: "completion_waiters (manager s) (uint (ev_user_data ev)) = Some h"
    and v: "view (streams s) h = Some v" "sv_send_open v"
  shows "\<exists>q. dispatch_event A ev s = (Inr (), s\<lparr>manager := (manager s)\<lparr>completion_waiters :=
      (completion_waiters (manager s))(uint (ev_user_data ev) := None)\<rparr>, streams := q\<rparr>) \<and>
    view q = (view (streams s))(h \<mapsto> offered ev v)"
proof (cases "send_error v")
  case None
  then obtain q' where "sm_send_nowait A h ev (streams s) = (Inr (), q')"
    and "view q' = (view (streams s))(h \<mapsto> handed ev v)"
    using stream_lawsD(3) [OF L v(1)] by blast
  then show ?thesis
    using None live h stream_lawsD(4) [OF L, of q' h "handed ev v"]
    by (intro exI [of _ "sm_close_send A h q'"])
      (simp add: dispatch_event_def pop_waiter_def bindP_def send_nowait_def close_send_def
        offered_def handed_def)
next
  case (Some e)
  then have "e = WouldBlock \<or> e = BrokenResourceError"
    using v(2) by (auto simp: send_error_def split: if_splits)
  with Some live h stream_lawsD(2) [OF L v(1) Some, of ev] show ?thesis
    using v(1) by (intro exI [of _ "streams s"])
      (auto simp: dispatch_event_def pop_waiter_def bindP_def send_nowait_def offered_def)
qed

lemma dispatch_event_effect:
  assumes L: "stream_laws A view" and ok: "waiters_ok view s"
  shows "\<exists>t. dispatch_event A ev s = (Inr (), t) \<and> dispatched view [ev] s t \<and> waiters_ok view t"
proof (cases "should_be_ignored ev \<or> completion_waiters (manager s) (uint (ev_user_data ev)) = None")
  case True
  from dispatch_event_dropped [OF this] ok show ?thesis by blast
next
  case False
  let ?u = "uint (ev_user_data ev)" and ?W = "completion_waiters (manager s)"
  from False obtain h where live: "\<not> should_be_ignored ev" and h: "?W ?u = Some h" by auto
  obtain v where v: "view (streams s) h = Some v" "sv_send_open v"
    using ok h unfolding waiters_ok_def by blast
  have others: "h' \<noteq> h" if "?W u = Some h'" "u \<noteq> ?u" for u h'
    using ok that h unfolding waiters_ok_def inj_on_def by (metis domI)
  obtain q where run: "dispatch_event A ev s =
      (Inr (), s\<lparr>manager := (manager s)\<lparr>completion_waiters := ?W(?u := None)\<rparr>, streams := q\<rparr>)" (is "_ = (_, ?t)")
    and q: "view q = (view (streams s))(h \<mapsto> offered ev v)"
    using dispatch_event_sent [OF L live h v] by blast
  have "dispatched view [ev] s ?t"
    unfolding dispatched_def waiters_left using live h v others
    by (intro exI [of _ q]) (auto simp: first_of_one q ran_def)
  moreover have "waiters_ok view ?t"
    using ok others unfolding waiters_ok_def by (auto simp: q inj_on_def split: if_splits)
  ultimately show ?thesis using run by blast
qed

lemma dispatched_Nil: "dispatched view [] s s"
  unfolding dispatched_def by (intro exI [of _ "streams s"]) (simp add: restrict_map_UNIV)

lemma waiter_gone:
  assumes "waiters_ok view s" "completion_waiters (manager s) u = Some h" "u \<notin> S"
  shows "h \<notin> ran (completion_waiters (manager s) |` S)"
proof
  assume "h \<in> ran (completion_waiters (manager s) |` S)"
  then obtain u' where u': "completion_waiters (manager s) u' = Some h" "u' \<in> S"
    by (auto simp: restrict_map_def ran_def split: if_splits)
  from u'(1) assms(1,2) have "u' = u"
    unfolding waiters_ok_def inj_on_def by (metis domI)
  with u'(2) assms(3) show False by simp
qed

lemma dispatched_Cons:
  assumes ok: "waiters_ok view s" and first: "dispatched view [ev] s t" and rest: "dispatched view evs t u"
  shows "dispatched view (ev # evs) s u"
proof -
  let ?W = "completion_waiters (manager s)" and ?W' = "completion_waiters (manager t)"
  obtain q where t: "t = s\<lparr>manager := (manager s)\<lparr>completion_waiters :=
        ?W |` {u. first_event [ev] u = None}\<rparr>, streams := q\<rparr>"
    and q: "\<And>h. h \<notin> ran ?W \<Longrightarrow> view q h = view (streams s) h"
      "\<And>u h. ?W u = Some h \<Longrightarrow> view q h = (case first_event [ev] u of
         None \<Rightarrow> view (streams s) h | Some ev \<Rightarrow> map_option (offered ev) (view (streams s) h))"
    using first unfolding dispatched_def by blast
  obtain r where u: "u = t\<lparr>manager := (manager t)\<lparr>completion_waiters :=
        ?W' |` {u. first_event evs u = None}\<rparr>, streams := r\<rparr>"
    and r: "\<And>h. h \<notin> ran ?W' \<Longrightarrow> view r h = view (streams t) h"
      "\<And>u h. ?W' u = Some h \<Longrightarrow> view r h = (case first_event evs u of
         None \<Rightarrow> view (streams t) h | Some ev \<Rightarrow> map_option (offered ev) (view (streams t) h))"
    using rest unfolding dispatched_def by blast
  have W': "?W' = ?W |` {u. first_event [ev] u = None}" and st: "streams t = q"
    by (simp_all add: t)
  have "?W' |` {u. first_event evs u = None} = ?W |` {u. first_event (ev # evs) u = None}"
    by (auto simp: W' restrict_map_def fun_eq_iff first_event_Cons)
  then have "u = s\<lparr>manager := (manager s)\<lparr>completion_waiters :=
      ?W |` {u. first_event (ev # evs) u = None}\<rparr>, streams := r\<rparr>"
    by (subst u) (simp add: t)
  moreover have "view r h = view (streams s) h" if "h \<notin> ran ?W" for h
  proof -
    have "h \<notin> ran ?W'" using that by (auto simp: W' restrict_map_def ran_def)
    with r(1) q(1) that show ?thesis by (simp add: st)
  qed
  moreover have "view r h = (case first_event (ev # evs) k of
      None \<Rightarrow> view (streams s) h | Some ev \<Rightarrow> map_option (offered ev) (view (streams s) h))"
    if h: "?W k = Some h" for k h
  proof (cases "addressed k ev")
    case True
    have "h \<notin> ran ?W'"
      unfolding W' by (rule waiter_gone [OF ok h]) (use True in \<open>simp add: first_event_Cons\<close>)
    with r(1) q(2) [OF h] True show ?thesis by (simp add: st first_event_Cons)
  next
    case False
    then have "?W' k = Some h" using h by (simp add: W' first_event_Cons)
    with r(2) q(2) [OF h] False show ?thesis by (simp add: st first_event_Cons split: option.split)
  qed
  ultimately show ?thesis unfolding dispatched_def by blast
qed

lemma dispatch_events_effect:
  assumes L: "stream_laws A view"
  shows "waiters_ok view s \<Longrightarrow>
    \<exists>t. dispatch_events A evs s = (Inr (), t) \<and> dispatched view evs s t \<and> waiters_ok view t"
proof (induction evs arbitrary: s)
  case Nil
  then show ?case by (auto intro: dispatched_Nil)
next
  case (Cons ev evs)
  obtain t where t: "dispatch_event A ev s = (Inr (), t)" "dispatched view [ev] s t" "waiters_ok view t"
    using dispatch_event_effect [OF L Cons.prems] by blast
  with Cons.IH [OF t(3)] dispatched_Cons [OF Cons.prems t(2)] show ?case
    by (auto simp: bindP_def)
qed

end
