(* ===== verification/Manager_Run.thy ===== *)
theory Manager_Run
  imports Manager
begin

text \<open>
  The histories of an event loop with one manager: calls of \<open>wait_for_completion\<close> in any number of
  tasks, rounds of the dispatcher, and anything else the program does, interleaved at will. Every
  history of the manager is a history of its ring.
\<close>

section \<open>Steps\<close>

datatype aio_label =
    Ring_Call call outcome
  | Wait_Start nat int bool
  | Wait_Receive nat
  | Wait_Return nat
  | Wait_Cancel nat
  | Round "exn + completion_event list"
  | Dispatcher_Ends
  | Outside

definition set_task :: "nat \<Rightarrow> wait_task \<Rightarrow> wait_state \<Rightarrow>
    ('r, 'w, 'q, 'z) aio_scheme \<Rightarrow> ('r, 'w, 'q, 'z) aio_scheme" where
  "set_task k w st s = s\<lparr>tasks := (tasks s)(k \<mapsto> w\<lparr>wt_state := st\<rparr>)\<rparr>"

text \<open>The task joins the receivers of its stream; an error leaves the \<open>async with\<close> block.\<close>

definition wait_receive ::
  "'q stream_api \<Rightarrow> stream \<Rightarrow> (('r, 'w, 'q, 'z) aio_scheme, unit) prog" where
  "wait_receive A h = (\<lambda>s. case sm_receive A h (streams s) of
     (Inl e, q) \<Rightarrow> (Inl e, close_receive A h (s\<lparr>streams := q\<rparr>))
   | (Inr _, q) \<Rightarrow> (Inr (), s\<lparr>streams := q\<rparr>))"

fun entered_as :: "exn + stream \<Rightarrow> wait_state" where
  "entered_as (Inl e) = Raised None e"
| "entered_as (Inr h) = Entered h"

fun received_as :: "stream \<Rightarrow> exn + unit \<Rightarrow> wait_state" where
  "received_as h (Inl e) = Raised (Some h) e"
| "received_as h (Inr _) = Receiving h"

fun returned_as :: "stream \<Rightarrow> exn + completion_event \<Rightarrow> wait_state" where
  "returned_as h (Inl e) = Raised (Some h) e"
| "returned_as h (Inr cqe) = Returned h cqe"

text \<open>
  A task can be cancelled wherever it is suspended. The dispatcher ends when it is cancelled, or
  when \<open>wait_readable\<close> or its own round raises. \<open>Outside\<close> is what touches neither the ring nor
  the manager.
\<close>

inductive aio_step ::
  "('r, 'w) env \<Rightarrow> 'q stream_api \<Rightarrow> ('r, 'w, 'q, 'z) aio_scheme \<Rightarrow> aio_label \<Rightarrow>
     ('r, 'w, 'q, 'z) aio_scheme \<Rightarrow> bool" for E A where
  aio_ring: "api_step E s (c, v) t \<Longrightarrow> c \<noteq> Elsewhere \<Longrightarrow> aio_step E A s (Ring_Call c v) t"
| aio_start: "tasks s k = None \<Longrightarrow> wait_enter E A u s = (x, t) \<Longrightarrow>
    aio_step E A s (Wait_Start k u auto_on)
      (set_task k \<lparr>wt_user_data = u, wt_autoraise = auto_on, wt_state = entered_as x\<rparr> (entered_as x) t)"
| aio_receive: "tasks s k = Some w \<Longrightarrow> wt_state w = Entered h \<Longrightarrow> wait_receive A h s = (x, t) \<Longrightarrow>
    aio_step E A s (Wait_Receive k) (set_task k w (received_as h x) t)"
| aio_return: "tasks s k = Some w \<Longrightarrow> wt_state w = Receiving h \<Longrightarrow>
    sm_received A h (streams s) = Some ev \<Longrightarrow> wait_return A h (wt_autoraise w) ev s = (x, t) \<Longrightarrow>
    aio_step E A s (Wait_Return k) (set_task k w (returned_as h x) t)"
| aio_cancel: "tasks s k = Some w \<Longrightarrow> wt_state w = Entered h \<or> wt_state w = Receiving h \<Longrightarrow>
    aio_step E A s (Wait_Cancel k) (set_task k w (Cancelled h) (close_receive A h s))"
| aio_round: "dispatcher s = Running \<Longrightarrow> dispatch_round E A s = Some (x, t) \<Longrightarrow>
    aio_step E A s (Round x)
      (t\<lparr>dispatcher := (case x of Inl e \<Rightarrow> Failed e | Inr _ \<Rightarrow> Running)\<rparr>)"
| aio_ends: "dispatcher s = Running \<Longrightarrow> d = Stopped \<or> d = Failed e \<Longrightarrow>
    aio_step E A s Dispatcher_Ends (s\<lparr>dispatcher := d\<rparr>)"
| aio_outside: "same_ring s t \<Longrightarrow> py.more t = py.more s \<Longrightarrow> aio_step E A s Outside t"

inductive aio_run ::
  "('r, 'w) env \<Rightarrow> 'q stream_api \<Rightarrow> ('r, 'w, 'q, 'z) aio_scheme \<Rightarrow> aio_label list \<Rightarrow>
     ('r, 'w, 'q, 'z) aio_scheme \<Rightarrow> bool" for E A where
  aio_nil: "aio_run E A s [] s"
| aio_snoc: "aio_run E A s ls t \<Longrightarrow> aio_step E A t l u \<Longrightarrow> aio_run E A s (ls @ [l]) u"

text \<open>The events the dispatcher has fetched.\<close>

fun fetched_by :: "aio_label \<Rightarrow> completion_event list" where
  "fetched_by (Round (Inr evs)) = evs"
| "fetched_by _ = []"

definition fetched :: "aio_label list \<Rightarrow> completion_event list" where
  "fetched ls = concat (map fetched_by ls)"

lemma fetched_simps [simp]: "fetched [] = []" "fetched (ls @ [l]) = fetched ls @ fetched_by l"
  by (simp_all add: fetched_def)

text \<open>A manager that has just been made, with its dispatcher started.\<close>

definition fresh_manager :: "('r, 'w, 'q, 'z) aio_scheme \<Rightarrow> bool" where
  "fresh_manager s \<longleftrightarrow> completion_waiters (manager s) = Map.empty \<and> tasks s = Map.empty \<and>
     dispatcher s = Running"

section \<open>The invariant\<close>

fun stream_of :: "wait_state \<Rightarrow> stream option" where
  "stream_of (Entered h) = Some h"
| "stream_of (Receiving h) = Some h"
| "stream_of (Returned h _) = Some h"
| "stream_of (Raised h _) = h"
| "stream_of (Cancelled h) = Some h"

definition receive_closed :: "stream_view option \<Rightarrow> bool" where
  "receive_closed v \<longleftrightarrow> (\<exists>x. v = Some x \<and> \<not> sv_recv_open x)"

abbreviation waiting_stream :: stream_view where
  "waiting_stream \<equiv> new_stream\<lparr>sv_waiting := True\<rparr>"

text \<open>A call in each place: its stream, and where its event came from.\<close>

fun wait_ok :: "(stream \<rightharpoonup> stream_view) \<Rightarrow> completion_event set \<Rightarrow> int \<Rightarrow> wait_state \<Rightarrow> bool" where
  "wait_ok V R u (Entered h) \<longleftrightarrow> V h = Some new_stream"
| "wait_ok V R u (Receiving h) \<longleftrightarrow> V h = Some waiting_stream \<or>
     (\<exists>ev \<in> R. addressed u ev \<and> V h = Some (offered ev waiting_stream))"
| "wait_ok V R u (Returned h cqe) \<longleftrightarrow> receive_closed (V h) \<and> cqe \<in> R \<and> addressed u cqe"
| "wait_ok V R u (Raised None e) \<longleftrightarrow> True"
| "wait_ok V R u (Raised (Some h) e) \<longleftrightarrow> receive_closed (V h) \<and>
     (\<exists>ev \<in> R. addressed u ev \<and> raise_for_cqe ev = Inl e)"
| "wait_ok V R u (Cancelled h) \<longleftrightarrow> receive_closed (V h)"

definition tasks_ok ::
  "('q \<Rightarrow> stream \<rightharpoonup> stream_view) \<Rightarrow> completion_event set \<Rightarrow> ('r, 'w, 'q, 'z) aio_scheme \<Rightarrow> bool" where
  "tasks_ok view R s \<longleftrightarrow>
     (\<forall>k w. tasks s k = Some w \<longrightarrow> wait_ok (view (streams s)) R (wt_user_data w) (wt_state w)) \<and>
     (\<forall>k w j w' h. tasks s k = Some w \<longrightarrow> tasks s j = Some w' \<longrightarrow> stream_of (wt_state w) = Some h \<longrightarrow>
        stream_of (wt_state w') = Some h \<longrightarrow> k = j)"

definition registered_ok :: "('r, 'w, 'q, 'z) aio_scheme \<Rightarrow> bool" where
  "registered_ok s \<longleftrightarrow> (\<forall>u h. completion_waiters (manager s) u = Some h \<longrightarrow>
     (\<exists>k w. tasks s k = Some w \<and> wt_user_data w = u \<and> stream_of (wt_state w) = Some h))"

definition manager_inv ::
  "('q \<Rightarrow> stream \<rightharpoonup> stream_view) \<Rightarrow> completion_event set \<Rightarrow> ('r, 'w, 'q, 'z) aio_scheme \<Rightarrow> bool" where
  "manager_inv view R s \<longleftrightarrow> waiters_ok view s \<and> tasks_ok view R s \<and> registered_ok s"

lemma aio_more_fields:
  "py.more (t :: ('r, 'w, 'q, 'z) aio_scheme) = py.more s \<Longrightarrow> manager t = manager s"
  "py.more t = py.more s \<Longrightarrow> streams t = streams s"
  "py.more t = py.more s \<Longrightarrow> tasks t = tasks s"
  "py.more t = py.more s \<Longrightarrow> dispatcher t = dispatcher s"
  by (cases s; cases t; simp)+

lemma manager_inv_frame:
  "manager t = manager s \<Longrightarrow> streams t = streams s \<Longrightarrow> tasks t = tasks s \<Longrightarrow>
     manager_inv view R t = manager_inv view R s"
  by (simp add: manager_inv_def waiters_ok_def tasks_ok_def registered_ok_def)

lemma wait_ok_mono: "wait_ok V R u w \<Longrightarrow> R \<subseteq> R' \<Longrightarrow> wait_ok V R' u w"
  by (cases "(V, R, u, w)" rule: wait_ok.cases) auto

lemma wait_ok_stream: "wait_ok V R u w \<Longrightarrow> stream_of w = Some h \<Longrightarrow> \<exists>v. V h = Some v"
  by (cases "(V, R, u, w)" rule: wait_ok.cases) (auto simp: receive_closed_def)

lemma wait_ok_cong: "(\<And>h. stream_of w = Some h \<Longrightarrow> V' h = V h) \<Longrightarrow> wait_ok V' R u w = wait_ok V R u w"
  by (cases "(V, R, u, w)" rule: wait_ok.cases) auto

lemma manager_inv_waitD:
  "manager_inv view R s \<Longrightarrow> tasks s k = Some w \<Longrightarrow>
     wait_ok (view (streams s)) R (wt_user_data w) (wt_state w)"
  by (simp add: manager_inv_def tasks_ok_def)

section \<open>The steps keep it\<close>

lemma tasks_ok_upd:
  assumes ok: "tasks_ok view R s" and t: "tasks t = (tasks s)(k \<mapsto> w')"
    and new: "wait_ok (view (streams t)) R (wt_user_data w') (wt_state w')"
    and others: "\<And>j w h. j \<noteq> k \<Longrightarrow> tasks s j = Some w \<Longrightarrow> stream_of (wt_state w) = Some h \<Longrightarrow>
      view (streams t) h = view (streams s) h \<and> stream_of (wt_state w') \<noteq> Some h"
  shows "tasks_ok view R t"
  unfolding tasks_ok_def
proof (intro conjI allI impI)
  fix j w assume j: "tasks t j = Some w"
  show "wait_ok (view (streams t)) R (wt_user_data w) (wt_state w)"
  proof (cases "j = k")
    case True
    with j new show ?thesis by (simp add: t)
  next
    case False
    with j have js: "tasks s j = Some w" by (simp add: t)
    then have "wait_ok (view (streams s)) R (wt_user_data w) (wt_state w)"
      using ok by (simp add: tasks_ok_def)
    moreover have "wait_ok (view (streams t)) R (wt_user_data w) (wt_state w) =
        wait_ok (view (streams s)) R (wt_user_data w) (wt_state w)"
      by (rule wait_ok_cong) (use others [OF False js] in blast)
    ultimately show ?thesis by simp
  qed
next
  fix j w i v h
  assume "tasks t j = Some w" "tasks t i = Some v" "stream_of (wt_state w) = Some h"
    "stream_of (wt_state v) = Some h"
  then show "j = i"
    using ok others [of j w h] others [of i v h] unfolding tasks_ok_def
    by (auto simp: t split: if_splits)
qed

lemma registered_ok_upd:
  assumes ok: "registered_ok s" and t: "tasks t = (tasks s)(k \<mapsto> w')"
    and same: "\<And>w. tasks s k = Some w \<Longrightarrow> wt_user_data w' = wt_user_data w \<and>
      stream_of (wt_state w') = stream_of (wt_state w)"
    and waiters: "\<And>u h. completion_waiters (manager t) u = Some h \<Longrightarrow>
      completion_waiters (manager s) u = Some h \<or>
      wt_user_data w' = u \<and> stream_of (wt_state w') = Some h"
  shows "registered_ok t"
  unfolding registered_ok_def
proof (intro allI impI)
  fix u h assume "completion_waiters (manager t) u = Some h"
  from waiters [OF this] show "\<exists>k w. tasks t k = Some w \<and> wt_user_data w = u \<and> stream_of (wt_state w) = Some h"
  proof
    assume "completion_waiters (manager s) u = Some h"
    then obtain j w where j: "tasks s j = Some w" "wt_user_data w = u" "stream_of (wt_state w) = Some h"
      using ok unfolding registered_ok_def by blast
    then show ?thesis using same by (cases "j = k") (auto simp: t)
  next
    assume "wt_user_data w' = u \<and> stream_of (wt_state w') = Some h"
    then show ?thesis by (intro exI [of _ k] exI [of _ w']) (simp add: t)
  qed
qed

text \<open>A task moves on, its stream with it.\<close>

lemma manager_inv_local:
  assumes inv: "manager_inv view R s" and k: "tasks s k = Some w" "stream_of (wt_state w) = Some h"
    and t: "t = set_task k w st (s\<lparr>streams := q\<rparr>)" and st: "stream_of st = Some h"
    and v: "view (streams s) h = Some v" and q: "view q = (view (streams s))(h \<mapsto> v')"
    and open': "sv_send_open v' = sv_send_open v" and new: "wait_ok (view q) R (wt_user_data w) st"
  shows "manager_inv view R t"
proof -
  have "waiters_ok view t"
    using inv v open' unfolding manager_inv_def waiters_ok_def t set_task_def
    by (auto simp: q) (metis option.inject)
  moreover have "tasks_ok view R t"
  proof (rule tasks_ok_upd [where s = s and k = k and w' = "w\<lparr>wt_state := st\<rparr>"])
    show "tasks_ok view R s" using inv by (simp add: manager_inv_def)
    show "view (streams t) h' = view (streams s) h' \<and> stream_of (wt_state (w\<lparr>wt_state := st\<rparr>)) \<noteq> Some h'"
      if "j \<noteq> k" "tasks s j = Some w'" "stream_of (wt_state w') = Some h'" for j w' h'
    proof -
      have "h' \<noteq> h" using inv that k unfolding manager_inv_def tasks_ok_def by blast
      then show ?thesis by (simp add: t set_task_def q st)
    qed
  qed (simp_all add: t set_task_def new)
  moreover have "registered_ok t"
    by (rule registered_ok_upd [where s = s and k = k and w' = "w\<lparr>wt_state := st\<rparr>"])
      (use inv k st in \<open>simp_all add: manager_inv_def t set_task_def\<close>)
  ultimately show ?thesis by (simp add: manager_inv_def)
qed

lemma wait_enter_effect:
  fixes s :: "('r, 'w, 'q, 'z) aio_scheme"
  assumes L: "stream_laws A view" and run: "wait_enter E A u s = (x, t)"
  obtains (failed) e where "x = Inl e" "py.more t = py.more s"
  | (registered) h where "x = Inr h" "view (streams s) h = None"
      "view (streams t) = (view (streams s))(h \<mapsto> new_stream)" "tasks t = tasks s"
      "dispatcher t = dispatcher s"
      "manager t = (manager s)\<lparr>completion_waiters := (completion_waiters (manager s))(u \<mapsto> h)\<rparr>"
proof -
  let ?m = "if force_submissions (manager s) then bindP (io_submit E) (\<lambda>_. ret ()) else ret ()"
  obtain y s1 where flush: "?m s = (y, s1)" by (metis prod.exhaust)
  have "frames ?m" by (intro keeps_if frame_rules framed)
  with flush have more: "py.more s1 = py.more s" by (auto dest: framesD)
  note same = aio_more_fields [OF more]
  show ?thesis
  proof (cases y)
    case (Inl e)
    with run flush have "x = Inl e" "t = s1" by (simp_all add: wait_enter_def bindP_app)
    with failed more show ?thesis by simp
  next
    case (Inr z)
    obtain h q where c: "sm_create A (streams s) = (h, q)" by (metis prod.exhaust)
    with run flush Inr same have "x = Inr h" and t: "t = s1\<lparr>streams := q, manager := (manager s)\<lparr>
        completion_waiters := (completion_waiters (manager s))(u \<mapsto> h)\<rparr>\<rparr>"
      by (simp_all add: wait_enter_def bindP_app create_memory_object_stream_def)
    then show ?thesis using stream_lawsD(1) [OF L c] same by (intro registered) (simp_all add: t)
  qed
qed

lemma manager_inv_start:
  assumes L: "stream_laws A view" and inv: "manager_inv view R s" and k: "tasks s k = None"
    and run: "wait_enter E A u s = (x, t)"
  shows "manager_inv view R (set_task k \<lparr>wt_user_data = u, wt_autoraise = b, wt_state = entered_as x\<rparr>
    (entered_as x) t)" (is "manager_inv view R ?t")
  using L run
proof (cases rule: wait_enter_effect)
  case (failed e)
  note same = aio_more_fields [OF failed(2)]
  have fields: "manager ?t = manager s" "streams ?t = streams s"
    "tasks ?t = (tasks s)(k \<mapsto> \<lparr>wt_user_data = u, wt_autoraise = b, wt_state = Raised None e\<rparr>)"
    by (simp_all add: set_task_def same failed(1))
  have "tasks_ok view R ?t"
    by (rule tasks_ok_upd [OF _ fields(3)]) (use inv in \<open>simp_all add: manager_inv_def fields\<close>)
  moreover have "registered_ok ?t"
    by (rule registered_ok_upd [OF _ fields(3)])
      (use inv k in \<open>simp_all add: manager_inv_def fields(1)\<close>)
  moreover have "waiters_ok view ?t"
    using inv unfolding manager_inv_def waiters_ok_def fields by simp
  ultimately show ?thesis by (simp add: manager_inv_def)
next
  case (registered h)
  let ?w = "\<lparr>wt_user_data = u, wt_autoraise = b, wt_state = Entered h\<rparr>"
  have fields: "manager ?t = (manager s)\<lparr>completion_waiters := (completion_waiters (manager s))(u \<mapsto> h)\<rparr>"
    "view (streams ?t) = (view (streams s))(h \<mapsto> new_stream)" "tasks ?t = (tasks s)(k \<mapsto> ?w)"
    by (simp_all add: set_task_def registered)
  have unused: "stream_of (wt_state w) \<noteq> Some h" if "tasks s j = Some w" for j w
    using inv that wait_ok_stream registered(2) unfolding manager_inv_def tasks_ok_def
    by (metis option.distinct(1))
  have "tasks_ok view R ?t"
  proof (rule tasks_ok_upd [OF _ fields(3)])
    show "tasks_ok view R s" using inv by (simp add: manager_inv_def)
    show "view (streams ?t) h' = view (streams s) h' \<and> stream_of (wt_state ?w) \<noteq> Some h'"
      if "j \<noteq> k" "tasks s j = Some w" "stream_of (wt_state w) = Some h'" for j w h'
      using that unused by (auto simp: fields(2))
  qed (simp add: fields(2))
  moreover have "registered_ok ?t"
    by (rule registered_ok_upd [OF _ fields(3)])
      (use inv k in \<open>simp_all add: manager_inv_def fields(1) split: if_splits\<close>)
  moreover have "waiters_ok view ?t"
  proof -
    have "h \<notin> ran (completion_waiters (manager s))"
      using inv registered(2) unfolding manager_inv_def waiters_ok_def ran_def by fastforce
    then show ?thesis
      using inv unfolding manager_inv_def waiters_ok_def fields
      by (auto simp: new_stream_def inj_on_def ran_def split: if_splits)
  qed
  ultimately show ?thesis by (simp add: manager_inv_def)
qed

lemma offered_simps [simp]:
  "offered ev new_stream = new_stream"
  "offered ev (offered ev' waiting_stream) = offered ev' waiting_stream"
  "\<not> sv_recv_open v \<Longrightarrow> offered ev v = v"
  by (simp_all add: offered_def send_error_def new_stream_def handed_def)

lemma item_simps [simp]:
  "sv_item waiting_stream = None" "sv_item (offered ev waiting_stream) = Some ev"
  by (simp_all add: offered_def send_error_def new_stream_def handed_def)

lemma receive_closed_offered: "receive_closed v \<Longrightarrow> map_option (offered ev) v = v"
  by (auto simp: receive_closed_def)

lemma wait_ok_offered:
  assumes ok: "wait_ok V R u w" and V': "\<And>h. stream_of w = Some h \<Longrightarrow> V' h = map_option (offered ev) (V h)"
    and ev: "addressed u ev" "ev \<in> R'" and sub: "R \<subseteq> R'"
  shows "wait_ok V' R' u w"
proof (cases w)
  case (Receiving h)
  have V: "V' h = map_option (offered ev) (V h)" using V' by (simp add: Receiving)
  from ok show ?thesis using ev sub by (auto simp: Receiving V)
next
  case (Raised h e)
  from ok V' sub show ?thesis by (cases h) (auto simp: Raised receive_closed_offered)
qed (use ok V' sub in \<open>auto simp: receive_closed_offered\<close>)

text \<open>Dispatching touches a task's stream only through its own registration.\<close>

lemma dispatched_task:
  assumes inv: "manager_inv view R s" and d: "dispatched view evs s t" and k: "tasks s k = Some w"
  shows "tasks t k = Some w \<and> ((\<forall>h. stream_of (wt_state w) = Some h \<longrightarrow>
        view (streams t) h = view (streams s) h) \<or>
     (\<exists>ev h. stream_of (wt_state w) = Some h \<and>
        completion_waiters (manager s) (wt_user_data w) = Some h \<and>
        first_event evs (wt_user_data w) = Some ev \<and>
        view (streams t) h = map_option (offered ev) (view (streams s) h)))"
proof -
  let ?W = "completion_waiters (manager s)"
  obtain q where t: "t = s\<lparr>manager := (manager s)\<lparr>completion_waiters :=
        ?W |` {u. first_event evs u = None}\<rparr>, streams := q\<rparr>"
    and out: "\<And>h. h \<notin> ran ?W \<Longrightarrow> view q h = view (streams s) h"
    and reg: "\<And>u h. ?W u = Some h \<Longrightarrow> view q h = (case first_event evs u of
         None \<Rightarrow> view (streams s) h | Some ev \<Rightarrow> map_option (offered ev) (view (streams s) h))"
    using d unfolding dispatched_def by blast
  have own: "u = wt_user_data w" if h: "stream_of (wt_state w) = Some h" and u: "?W u = Some h" for u h
  proof -
    obtain j w' where "tasks s j = Some w'" "wt_user_data w' = u" "stream_of (wt_state w') = Some h"
      using inv u unfolding manager_inv_def registered_ok_def by blast
    moreover from this have "j = k" using inv k h unfolding manager_inv_def tasks_ok_def by blast
    ultimately show ?thesis using k by simp
  qed
  show ?thesis
  proof (cases "\<exists>h. stream_of (wt_state w) = Some h \<and> ?W (wt_user_data w) = Some h \<and>
      first_event evs (wt_user_data w) \<noteq> None")
    case True
    then show ?thesis using k reg by (auto simp: t)
  next
    case False
    have "view q h = view (streams s) h" if h: "stream_of (wt_state w) = Some h" for h
    proof (cases "h \<in> ran ?W")
      case True
      then obtain u where u: "?W u = Some h" by (auto simp: ran_def)
      with own [OF h u] False h reg [OF u] show ?thesis by simp
    qed (rule out)
    then show ?thesis using k by (simp add: t)
  qed
qed

lemma manager_inv_dispatched:
  assumes inv: "manager_inv view R s" and d: "dispatched view evs s t" and ok: "waiters_ok view t"
  shows "manager_inv view (R \<union> set evs) t"
proof -
  have t: "tasks t = tasks s" "completion_waiters (manager t) =
      completion_waiters (manager s) |` {u. first_event evs u = None}"
    using d by (auto simp: dispatched_def)
  have "wait_ok (view (streams t)) (R \<union> set evs) (wt_user_data w) (wt_state w)"
    if k: "tasks s k = Some w" for k w
    using dispatched_task [OF inv d k]
  proof (elim conjE disjE exE)
    assume "\<forall>h. stream_of (wt_state w) = Some h \<longrightarrow> view (streams t) h = view (streams s) h"
    then have "wait_ok (view (streams t)) R (wt_user_data w) (wt_state w)"
      using manager_inv_waitD [OF inv k] wait_ok_cong by metis
    then show ?thesis by (rule wait_ok_mono) simp
  next
    fix ev h assume "stream_of (wt_state w) = Some h" "first_event evs (wt_user_data w) = Some ev"
      "view (streams t) h = map_option (offered ev) (view (streams s) h)"
    then show ?thesis
      using wait_ok_offered [OF manager_inv_waitD [OF inv k], of "view (streams t)" ev "R \<union> set evs"]
        first_event_SomeD [of evs "wt_user_data w" ev] by simp
  qed
  then have "tasks_ok view (R \<union> set evs) t"
    using inv unfolding manager_inv_def tasks_ok_def t(1) by blast
  moreover have "registered_ok t"
    using inv unfolding manager_inv_def registered_ok_def by (auto simp: t restrict_map_def)
  ultimately show ?thesis using ok by (simp add: manager_inv_def)
qed

lemma manager_inv_more: "py.more t = py.more s \<Longrightarrow> manager_inv view R s \<Longrightarrow> manager_inv view R t"
  using manager_inv_frame aio_more_fields by metis

lemma os_read_call_client: "os_read_call E fd n s = (x, t) \<Longrightarrow> py.more t = py.more s \<and> same_ring s t"
  by (auto simp: os_read_call_def same_ring_def split: prod.splits sum.splits)

text \<open>The ways a round can go, with the state at each of its calls.\<close>

lemma dispatch_roundE:
  assumes L: "stream_laws A view" and ok: "waiters_ok view s" and run: "dispatch_round E A s = Some (x, t)"
  obtains (read_failed) errno where "x = Inl (OSError (Some errno))" "py.more t = py.more s"
      "os_read_call E (efd (manager s)) 8 s = (Inl (OSError (Some errno)), t)"
  | (closed) bs where "x = Inl (ValueError RingClosed)" "py.more t = py.more s"
      "os_read_call E (efd (manager s)) 8 s = (Inr bs, t)" "the_io_uring (ring t) = None"
  | (served) bs s1 evs s2 where "x = Inr evs" "os_read_call E (efd (manager s)) 8 s = (Inr bs, s1)"
      "get_completion_entries E s1 = Some (Inr evs, s2)" "py.more s1 = py.more s"
      "py.more s2 = py.more s" "dispatched view evs s2 t" "waiters_ok view t"
proof -
  obtain y s1 where read: "os_read_call E (efd (manager s)) 8 s = (y, s1)" by (metis prod.exhaust)
  then have more: "py.more s1 = py.more s" by (simp add: os_read_call_client)
  show ?thesis
  proof (cases y)
    case (Inl e)
    then obtain errno where "e = OSError (Some errno)"
      using read by (auto simp: os_read_call_def split: prod.splits sum.splits)
    with Inl read run have x: "x = Inl (OSError (Some errno))" and "s1 = t"
      by (simp_all add: dispatch_round_def)
    with more read Inl \<open>e = _\<close> show ?thesis by (intro read_failed [OF x]) simp_all
  next
    case (Inr bs)
    then obtain z s2 where g: "get_completion_entries E s1 = Some (z, s2)"
      using run read by (auto simp: dispatch_round_def)
    show ?thesis
    proof (cases z)
      case (Inl e)
      from g Inl have "the_io_uring (ring s1) = None" "e = ValueError RingClosed" "s2 = s1"
        by (auto elim: get_completion_entriesE)
      with run read g Inl Inr more closed show ?thesis by (simp add: dispatch_round_def)
    next
      case fetched: (Inr evs)
      have more2: "py.more s2 = py.more s" using get_completion_entries_client [OF g] more by simp
      then have "waiters_ok view s2"
        using ok by (simp add: waiters_ok_def aio_more_fields [OF more2])
      from dispatch_events_effect [OF L this] obtain u where
        u: "dispatch_events A evs s2 = (Inr (), u)" "dispatched view evs s2 u" "waiters_ok view u"
        by blast
      with run read g Inr fetched have "x = Inr evs" "t = u" by (simp_all add: dispatch_round_def)
      with served [OF _ _ _ more more2] read g Inr fetched u show ?thesis by simp
    qed
  qed
qed

text \<open>
  What a call of \<open>wait_for_completion\<close> does by itself: it joins the receivers of its stream, it ends
  with an event it has been handed, or it is cancelled. The stream changes from \<open>v\<close> to \<open>v'\<close>; \<open>R\<close> are
  the events fetched so far.
\<close>

abbreviation left_stream :: "stream_view \<Rightarrow> stream_view" where
  "left_stream v \<equiv> v\<lparr>sv_recv_open := False, sv_waiting := False\<rparr>"

inductive task_move ::
  "completion_event set \<Rightarrow> aio_label \<Rightarrow> nat \<Rightarrow> wait_task \<Rightarrow> stream \<Rightarrow> stream_view \<Rightarrow> stream_view \<Rightarrow>
     wait_state \<Rightarrow> bool" for R where
  move_receive: "wt_state w = Entered h \<Longrightarrow>
    task_move R (Wait_Receive k) k w h new_stream waiting_stream (Receiving h)"
| move_return: "wt_state w = Receiving h \<Longrightarrow> ev \<in> R \<Longrightarrow> addressed (wt_user_data w) ev \<Longrightarrow>
    v = offered ev waiting_stream \<Longrightarrow> task_move R (Wait_Return k) k w h v (left_stream v)
      (returned_as h (outcome_of (wt_autoraise w) ev))"
| move_cancel: "wt_state w = Entered h \<or> wt_state w = Receiving h \<Longrightarrow>
    task_move R (Wait_Cancel k) k w h v (left_stream v) (Cancelled h)"

lemma stream_of_returned [simp]: "stream_of (returned_as h x) = Some h"
  by (cases x) simp_all

lemma wait_ok_returned:
  "receive_closed (V h) \<Longrightarrow> ev \<in> R \<Longrightarrow> addressed u ev \<Longrightarrow> wait_ok V R u (returned_as h (outcome_of b ev))"
  by (auto simp: outcome_of_def split: sum.split)

lemma task_move_ok:
  assumes "task_move R l k w h v v' st"
  shows "stream_of (wt_state w) = Some h" "stream_of st = Some h" "sv_send_open v' = sv_send_open v"
    "V h = Some v' \<Longrightarrow> wait_ok V R (wt_user_data w) st" "fetched_by l = []"
  using assms by (cases; auto simp: receive_closed_def intro: wait_ok_returned)+

text \<open>A step enters a call, moves one, is a round, or is not seen by the manager.\<close>

lemma aio_stepE:
  fixes s t :: "('r, 'w, 'q, 'z) aio_scheme"
  assumes L: "stream_laws A view" and inv: "manager_inv view R s" and st: "aio_step E A s l t"
  obtains (start) k u b x t' where "l = Wait_Start k u b" "tasks s k = None"
      "wait_enter E A u s = (x, t')" "t = set_task k
        \<lparr>wt_user_data = u, wt_autoraise = b, wt_state = entered_as x\<rparr> (entered_as x) t'"
  | (moved) k w h v v' st' q where "tasks s k = Some w" "task_move R l k w h v v' st'"
      "t = set_task k w st' (s\<lparr>streams := q\<rparr>)" "view (streams s) h = Some v"
      "view q = (view (streams s))(h \<mapsto> v')"
  | (round) x t' where "l = Round x" "dispatch_round E A s = Some (x, t')"
      "t = t'\<lparr>dispatcher := (case x of Inl e \<Rightarrow> Failed e | Inr _ \<Rightarrow> Running)\<rparr>"
  | (unseen) "fetched_by l = []" "manager t = manager s" "streams t = streams s" "tasks t = tasks s"
  using st
proof cases
  case (aio_ring c v)
  then have "py.more t = py.more s" using api_step_client by fastforce
  from unseen [OF _ aio_more_fields(1-3) [OF this]] aio_ring(1) show ?thesis by simp
next
  case (aio_start k u x t' b)
  then show ?thesis by (intro start) simp_all
next
  case (aio_receive k w h x t')
  have v: "view (streams s) h = Some new_stream"
    using manager_inv_waitD [OF inv aio_receive(3)] aio_receive(4) by simp
  obtain q where q: "sm_receive A h (streams s) = (Inr (), q)"
    "view q = (view (streams s))(h \<mapsto> waiting_stream)" using stream_lawsD(6) [OF L v] by blast
  show ?thesis
    by (rule moved [OF aio_receive(3) _ _ v q(2)])
      (use aio_receive q(1) in \<open>auto simp: wait_receive_def intro: move_receive\<close>)
next
  case (aio_return k w h ev x t')
  have "wait_ok (view (streams s)) R (wt_user_data w) (Receiving h)"
    using manager_inv_waitD [OF inv aio_return(3)] aio_return(4) by simp
  then obtain v where v: "view (streams s) h = Some v" and item: "sv_item v = Some ev \<Longrightarrow>
      ev \<in> R \<and> addressed (wt_user_data w) ev \<and> v = offered ev waiting_stream"
    by (metis item_simps option.distinct(1) option.inject wait_ok.simps(2))
  then have "task_move R l k w h v (left_stream v) (returned_as h (outcome_of (wt_autoraise w) ev))"
    using aio_return(1,4,5) stream_lawsD(7) [OF L v] by (auto intro: move_return)
  from moved [OF aio_return(3) this _ v stream_lawsD(5) [OF L v]] show ?thesis
    using aio_return(2,6) by (simp add: wait_return_eq close_receive_def)
next
  case (aio_cancel k w h)
  then obtain v where v: "view (streams s) h = Some v"
    using wait_ok_stream [OF manager_inv_waitD [OF inv aio_cancel(3)], of h] by auto
  have "task_move R l k w h v (left_stream v) (Cancelled h)"
    unfolding aio_cancel(1) by (rule move_cancel) (rule aio_cancel(4))
  from moved [OF aio_cancel(3) this _ v stream_lawsD(5) [OF L v]] show ?thesis
    using aio_cancel(2) by (simp add: close_receive_def)
next
  case (aio_round x t')
  then show ?thesis by (intro round)
next
  case (aio_ends d e)
  then show ?thesis by (intro unseen) simp_all
next
  case aio_outside
  from unseen [OF _ aio_more_fields(1-3) [OF aio_outside(3)]] aio_outside(1) show ?thesis by simp
qed

lemma manager_inv_step:
  assumes L: "stream_laws A view" and st: "aio_step E A s l t" and inv: "manager_inv view R s"
  shows "manager_inv view (R \<union> set (fetched_by l)) t"
  using L inv st
proof (cases rule: aio_stepE)
  case (start k u b x t')
  then show ?thesis using manager_inv_start [OF L inv] by simp
next
  case (moved k w h v v' st' q)
  note ok = task_move_ok [OF moved(2)]
  have "manager_inv view R t"
    by (rule manager_inv_local [OF inv moved(1) ok(1) moved(3) ok(2) moved(4,5) ok(3)])
      (rule ok(4), simp add: moved(5))
  then show ?thesis by (simp add: ok(5))
next
  case (round x t')
  have wok: "waiters_ok view s" using inv by (simp add: manager_inv_def)
  have dsp: "manager_inv view R' (t'\<lparr>dispatcher := d\<rparr>) = manager_inv view R' t'" for R' d
    by (rule manager_inv_frame) simp_all
  from L wok round(2) show ?thesis
  proof (cases rule: dispatch_roundE)
    case (served bs s1 evs s2)
    from manager_inv_dispatched [OF manager_inv_more [OF served(5) inv] served(6,7)] round served(1)
    show ?thesis by (simp add: dsp)
  qed (use round inv in \<open>simp_all add: dsp manager_inv_more\<close>)
next
  case unseen
  with inv show ?thesis using manager_inv_frame [OF unseen(2-4)] by simp
qed

lemma manager_inv_fresh: "fresh_manager s \<Longrightarrow> manager_inv view {} s"
  by (simp add: fresh_manager_def manager_inv_def waiters_ok_def tasks_ok_def registered_ok_def)

lemma manager_inv_run:
  assumes L: "stream_laws A view"
  shows "aio_run E A s ls t \<Longrightarrow> fresh_manager s \<Longrightarrow> manager_inv view (set (fetched ls)) t"
proof (induction rule: aio_run.induct)
  case (aio_nil s)
  then show ?case by (simp add: manager_inv_fresh)
next
  case (aio_snoc s ls t l u)
  then show ?case using manager_inv_step [OF L aio_snoc(2)] by simp
qed

end
