(* ===== verification/Manager_Ring.thy ===== *)
theory Manager_Ring
  imports Manager_Run
begin

text \<open>
  A history of the manager is a history of its ring: every step is at most three calls, and the
  buffers the dispatcher fetches are among those the ring delivers. What is proved of the ring's
  histories therefore holds below the manager.
\<close>

section \<open>A history of the manager is one of its ring\<close>

lemma wait_enter_ring:
  assumes "wait_enter E A u s = (x, t)"
  shows "same_ring s t \<or> (\<exists>y s1. io_submit E s = (y, s1) \<and> same_ring s1 t)"
proof -
  have reg: "same_ring s1 t" if "bindP (create_memory_object_stream A) (\<lambda>h.
      bindP (modP (\<lambda>s. s\<lparr>manager := (manager s)\<lparr>completion_waiters :=
        (completion_waiters (manager s))(u \<mapsto> h)\<rparr>\<rparr>)) (\<lambda>_. ret h)) s1 = (x, t)" for s1
    using that by (auto simp: bindP_app create_memory_object_stream_def same_ring_def split: prod.splits)
  show ?thesis
  proof (cases "force_submissions (manager s)")
    case True
    obtain y s1 where y: "io_submit E s = (y, s1)" by (metis prod.exhaust)
    have "same_ring s1 t"
    proof (cases y)
      case (Inl e)
      with assms True y show ?thesis by (simp add: wait_enter_def bindP_app same_ring_def)
    next
      case (Inr n)
      with assms True y show ?thesis by (intro reg) (simp add: wait_enter_def bindP_app)
    qed
    with y show ?thesis by blast
  next
    case False
    with assms have "same_ring s t" by (intro reg) (simp add: wait_enter_def bindP_app)
    then show ?thesis by simp
  qed
qed

lemma dispatched_ring: "dispatched view evs s t \<Longrightarrow> same_ring s t"
  by (auto simp: dispatched_def same_ring_def)

text \<open>The call of the ring that a step shows in its label.\<close>

fun ring_entry :: "aio_label \<Rightarrow> (call \<times> outcome) option" where
  "ring_entry (Ring_Call c v) = Some (c, v)"
| "ring_entry (Round (Inr evs)) = Some (Get_Completion_Entries, Events (Inr evs))"
| "ring_entry _ = None"

text \<open>Of a history, the calls whose outcome is recorded; of a history of the manager, those calls of
  its ring that its labels show.\<close>

definition observed :: "(call \<times> outcome) list \<Rightarrow> (call \<times> outcome) list" where
  "observed cs = filter (\<lambda>e. snd e \<noteq> Done) cs"

definition ring_history :: "aio_label list \<Rightarrow> (call \<times> outcome) list" where
  "ring_history ls = List.map_filter ring_entry ls"

lemma observed_simps [simp]:
  "observed [] = []" "observed (e # cs) = (if snd e = Done then observed cs else e # observed cs)"
  "observed (cs @ ds) = observed cs @ observed ds"
  by (simp_all add: observed_def)

lemma ring_history_simps [simp]:
  "ring_history [] = []"
  "ring_history (l # ls) = (case ring_entry l of None \<Rightarrow> ring_history ls | Some e \<Rightarrow> e # ring_history ls)"
  "ring_history (ls @ ls') = ring_history ls @ ring_history ls'"
  by (induction ls) (simp_all add: ring_history_def map_filter_simps split: option.split)

text \<open>The calls of the ring in one step: at most three, of which only the one in the label has a recorded
  outcome, and with the buffers of the label's events when the step is the manager's.\<close>

definition step_calls ::
  "('r, 'w) env \<Rightarrow> aio_label \<Rightarrow> ('r, 'w, 'q, 'z) aio_scheme \<Rightarrow> ('r, 'w, 'q, 'z) aio_scheme \<Rightarrow>
     (call \<times> outcome) list \<Rightarrow> bool" where
  "step_calls E l s t cs \<longleftrightarrow> length cs \<le> 3 \<and>
     (\<forall>ds s0. api_run E s0 ds s \<longrightarrow> api_run E s0 (ds @ cs) t) \<and> set_option (ring_entry l) \<subseteq> set cs \<and>
     observed cs = observed (ring_history [l]) \<and>
     ((\<exists>c v. l = Ring_Call c v) \<or> delivered cs = buffers_of (fetched_by l))"

lemma calls_elsewhere:
  assumes "same_ring s t" "ring_entry l = None" "fetched_by l = []"
  shows "\<exists>cs. step_calls E l s t cs"
  using run_snoc [OF _ step_elsewhere [OF assms(1)]] assms(2,3)
  by (intro exI [of _ "[(Elsewhere, Done)]"]) (simp add: step_calls_def delivered_def buffers_of_def)

lemma calls_start:
  assumes run: "wait_enter E A u s = (x, t')" and t: "same_ring t' t"
  shows "\<exists>cs. step_calls E (Wait_Start k u b) s t cs"
  using wait_enter_ring [OF run]
proof (elim disjE exE conjE)
  assume "same_ring s t'"
  then show ?thesis by (intro calls_elsewhere same_ring_trans [OF _ t]) simp_all
next
  fix y s1 assume y: "io_submit E s = (y, s1)" "same_ring s1 t'"
  have "api_run E s0 (ds @ [(Submit, Done), (Elsewhere, Done)]) t" if "api_run E s0 ds s" for s0 ds
    using run_snoc [OF run_snoc [OF that step_submit [OF y(1)]]
        step_elsewhere [OF same_ring_trans [OF y(2) t]]] by simp
  then show ?thesis
    by (intro exI [of _ "[(Submit, Done), (Elsewhere, Done)]"])
      (simp add: step_calls_def delivered_def buffers_of_def)
qed

lemma calls_round:
  fixes s t :: "('r, 'w, 'q, 'z) aio_scheme"
  assumes L: "stream_laws A view" and ok: "waiters_ok view s" and run: "dispatch_round E A s = Some (x, t')"
    and t: "same_ring t' t"
  shows "\<exists>cs. step_calls E (Round x) s t cs"
  using L ok run
proof (cases rule: dispatch_roundE)
  case (served bs s1 evs s2)
  let ?cs = "[(Elsewhere, Done), (Get_Completion_Entries, Events (Inr evs)), (Elsewhere, Done)]"
  have r1: "same_ring s s1" using os_read_call_client [OF served(2)] by simp
  have r2: "same_ring s2 t" by (rule same_ring_trans [OF dispatched_ring [OF served(6)] t])
  have "api_run E s0 (ds @ ?cs) t" if "api_run E s0 ds s" for s0 ds
    using run_snoc [OF run_snoc [OF run_snoc [OF that step_elsewhere [OF r1]]
      step_reap [OF served(3)]] step_elsewhere [OF r2]] by simp
  then show ?thesis
    by (intro exI [of _ ?cs]) (simp add: step_calls_def served(1) delivered_def)
next
  case (read_failed errno)
  from os_read_call_client [OF read_failed(3)] show ?thesis
    by (intro calls_elsewhere same_ring_trans [OF _ t]) (simp_all add: read_failed(1))
next
  case (closed bs)
  from os_read_call_client [OF closed(3)] show ?thesis
    by (intro calls_elsewhere same_ring_trans [OF _ t]) (simp_all add: closed(1))
qed

lemma same_ring_task: "same_ring s t \<Longrightarrow> same_ring s (set_task k w st t)"
  by (simp add: same_ring_def set_task_def)

lemma aio_step_calls:
  assumes L: "stream_laws A view" and ok: "waiters_ok view s" and st: "aio_step E A s l t"
  shows "\<exists>cs. step_calls E l s t cs"
  using st
proof cases
  case (aio_ring c v)
  then show ?thesis by (intro exI [of _ "[(c, v)]"]) (auto simp: step_calls_def intro: run_snoc)
next
  case (aio_start k u x t' b)
  show ?thesis unfolding aio_start(1,2)
    by (rule calls_start [OF aio_start(4) same_ring_task]) (simp add: same_ring_def)
next
  case (aio_round x t')
  show ?thesis unfolding aio_round(1,2)
    by (rule calls_round [OF L ok aio_round(4)]) (simp add: same_ring_def)
next
  case (aio_receive k w h x t')
  show ?thesis unfolding aio_receive(1,2) using aio_receive(5)
    by (intro calls_elsewhere same_ring_task)
      (auto simp: same_ring_def wait_receive_def close_receive_def split: prod.splits sum.splits)
next
  case (aio_return k w h ev x t')
  show ?thesis unfolding aio_return(1,2) using aio_return(6)
    by (intro calls_elsewhere same_ring_task) (auto simp: same_ring_def wait_return_eq close_receive_def)
next
  case (aio_cancel k w h)
  show ?thesis unfolding aio_cancel(1,2)
    by (intro calls_elsewhere same_ring_task) (simp_all add: same_ring_def close_receive_def)
next
  case (aio_ends d e)
  show ?thesis unfolding aio_ends(1,2) by (intro calls_elsewhere) (simp_all add: same_ring_def)
next
  case aio_outside
  show ?thesis unfolding aio_outside(1) by (intro calls_elsewhere aio_outside(2)) simp_all
qed

lemma delivered_append: "delivered (xs @ ys) = delivered xs @ delivered ys"
  by (simp add: delivered_def)

lemma buffers_of_append: "buffers_of (xs @ ys) = buffers_of xs @ buffers_of ys"
  by (simp add: buffers_of_def)

lemma aio_run_calls:
  assumes L: "stream_laws A view" and fresh: "fresh_manager s"
  shows "aio_run E A s ls t \<Longrightarrow> fresh_manager s \<Longrightarrow>
    \<exists>cs. api_run E s cs t \<and> length cs \<le> 3 * length ls \<and>
      (\<forall>l \<in> set ls. set_option (ring_entry l) \<subseteq> set cs) \<and>
      observed cs = observed (ring_history ls) \<and> mset (buffers_of (fetched ls)) \<subseteq># mset (delivered cs)"
proof (induction rule: aio_run.induct)
  case (aio_nil s)
  show ?case using run_nil [of E s] by (intro exI [of _ "[]"]) (simp add: buffers_of_def)
next
  case (aio_snoc s ls t l u)
  from aio_snoc.IH aio_snoc.prems obtain cs where cs: "api_run E s cs t" "length cs \<le> 3 * length ls"
    "\<forall>l \<in> set ls. set_option (ring_entry l) \<subseteq> set cs"
    "observed cs = observed (ring_history ls)" "mset (buffers_of (fetched ls)) \<subseteq># mset (delivered cs)" by blast
  have "waiters_ok view t"
    using manager_inv_run [OF L aio_snoc.hyps(1) aio_snoc.prems] by (simp add: manager_inv_def)
  from aio_step_calls [OF L this aio_snoc.hyps(2)] obtain ds where
    ds: "length ds \<le> 3" "\<And>es s0. api_run E s0 es t \<Longrightarrow> api_run E s0 (es @ ds) u"
      "set_option (ring_entry l) \<subseteq> set ds" "observed ds = observed (ring_history [l])"
      "(\<exists>c v. l = Ring_Call c v) \<or> delivered ds = buffers_of (fetched_by l)"
    unfolding step_calls_def by blast
  have "mset (buffers_of (fetched_by l)) \<subseteq># mset (delivered ds)"
    using ds(5) by (cases l) (auto simp: buffers_of_def)
  with cs ds(1-4) show ?case
    by (intro exI [of _ "cs @ ds"])
      (auto simp: delivered_append buffers_of_append intro: subset_mset.add_mono)
qed

end
