(* ===== verification/Manager_Lost.thy ===== *)
theory Manager_Lost
  imports Manager_Ring
begin

text \<open>
  What one step can do to a call of \<open>wait_for_completion\<close>, and the calls that will never return:
  those that have been given nothing and are no longer registered.
\<close>

section \<open>One step, one task\<close>

text \<open>A call moves by its own steps, and its stream is touched by others only when a round offers
  it the first event for the value it is registered under.\<close>

lemma step_task_other:
  assumes inv: "manager_inv view R s" and k: "tasks s k = Some w"
    and j: "tasks s j = Some w'" "stream_of (wt_state w') = Some h" "j \<noteq> k"
    and t: "t = set_task j w' st (s\<lparr>streams := q\<rparr>)" and q: "view q = (view (streams s))(h \<mapsto> v)"
  shows "tasks t k = Some w \<and>
    (\<forall>h. stream_of (wt_state w) = Some h \<longrightarrow> view (streams t) h = view (streams s) h)"
proof -
  have "h' \<noteq> h" if "stream_of (wt_state w) = Some h'" for h'
    using inv k j that unfolding manager_inv_def tasks_ok_def by blast
  then show ?thesis using k j(3) by (simp add: t set_task_def q)
qed

text \<open>A new call does not touch the others.\<close>

lemma start_task_other:
  assumes L: "stream_laws A view" and inv: "manager_inv view R s" and k: "tasks s k = Some w"
    and run: "wait_enter E A u s = (x, t)"
  shows "tasks t = tasks s \<and>
    (\<forall>h. stream_of (wt_state w) = Some h \<longrightarrow> view (streams t) h = view (streams s) h)"
  using L run
proof (cases rule: wait_enter_effect)
  case (failed e)
  then show ?thesis by (simp add: aio_more_fields [OF failed(2)])
next
  case (registered h)
  then show ?thesis using wait_ok_stream [OF manager_inv_waitD [OF inv k]] by auto
qed

text \<open>A round leaves a call alone or offers it the first event for its value.\<close>

lemma round_task:
  assumes L: "stream_laws A view" and inv: "manager_inv view R s" and k: "tasks s k = Some w"
    and run: "dispatch_round E A s = Some (x, t)"
  shows "tasks t k = Some w \<and> ((\<forall>h. stream_of (wt_state w) = Some h \<longrightarrow>
        view (streams t) h = view (streams s) h) \<or>
     (\<exists>evs ev h. x = Inr evs \<and> stream_of (wt_state w) = Some h \<and>
        completion_waiters (manager s) (wt_user_data w) = Some h \<and>
        first_event evs (wt_user_data w) = Some ev \<and>
        view (streams t) h = map_option (offered ev) (view (streams s) h)))"
proof -
  have wok: "waiters_ok view s" using inv by (simp add: manager_inv_def)
  from L wok run show ?thesis
  proof (cases rule: dispatch_roundE)
    case (served bs s1 evs s2)
    note same = aio_more_fields [OF served(5)]
    have "tasks s2 k = Some w" using k by (simp add: same)
    from dispatched_task [OF manager_inv_more [OF served(5) inv] served(6) this] served(1)
    show ?thesis by (simp add: same)
  next
    case (read_failed errno)
    then show ?thesis using k by (simp add: aio_more_fields [OF read_failed(2)])
  next
    case (closed bs)
    then show ?thesis using k by (simp add: aio_more_fields [OF closed(2)])
  qed
qed

lemma step_task:
  fixes s t :: "('r, 'w, 'q, 'z) aio_scheme"
  assumes L: "stream_laws A view" and inv: "manager_inv view R s" and st: "aio_step E A s l t"
    and k: "tasks s k = Some w"
  obtains (receive) h where "l = Wait_Receive k" "wt_state w = Entered h"
      "tasks t k = Some (w\<lparr>wt_state := Receiving h\<rparr>)" "view (streams t) h = Some waiting_stream"
  | (return_) h ev x where "l = Wait_Return k" "wt_state w = Receiving h"
      "view (streams s) h = Some (offered ev waiting_stream)" "x = outcome_of (wt_autoraise w) ev"
      "tasks t k = Some (w\<lparr>wt_state := returned_as h x\<rparr>)"
  | (cancel) h where "l = Wait_Cancel k" "tasks t k = Some (w\<lparr>wt_state := Cancelled h\<rparr>)"
      "wt_state w = Entered h \<or> wt_state w = Receiving h"
  | (idle) "tasks t k = Some w"
      "\<And>h. stream_of (wt_state w) = Some h \<Longrightarrow> view (streams t) h = view (streams s) h"
  | (offer) evs ev h where "l = Round (Inr evs)" "tasks t k = Some w" "stream_of (wt_state w) = Some h"
      "completion_waiters (manager s) (wt_user_data w) = Some h"
      "first_event evs (wt_user_data w) = Some ev"
      "view (streams t) h = map_option (offered ev) (view (streams s) h)"
  using L inv st
proof (cases rule: aio_stepE)
  case (start j u b x t')
  have "j \<noteq> k" using start(2) k by auto
  with start_task_other [OF L inv k start(3)] idle k show ?thesis by (simp add: start(4) set_task_def)
next
  case (moved j w' h v v' st' q)
  show ?thesis
  proof (cases "j = k")
    case True
    then have "w' = w" using moved(1) k by simp
    from moved(2) show ?thesis
      by cases (use True \<open>w' = w\<close> moved(3-5) receive return_ cancel in \<open>auto simp: set_task_def\<close>)
  next
    case False
    from step_task_other [OF inv k moved(1) task_move_ok(1) [OF moved(2)] False moved(3,5)] idle
    show ?thesis by simp
  qed
next
  case (round x t')
  from round_task [OF L inv k round(2)] show ?thesis
    using idle offer by (auto simp: round(1,3))
next
  case unseen
  with idle k show ?thesis by simp
qed

lemma round_tasks:
  assumes L: "stream_laws A view" and inv: "manager_inv view R s" and run: "dispatch_round E A s = Some (x, t)"
  shows "tasks t = tasks s \<and> ran (completion_waiters (manager t)) \<subseteq> ran (completion_waiters (manager s))"
proof -
  have wok: "waiters_ok view s" using inv by (simp add: manager_inv_def)
  from L wok run show ?thesis
  proof (cases rule: dispatch_roundE)
    case (served bs s1 evs s2)
    from served(6) show ?thesis
      by (auto simp: dispatched_def ran_def restrict_map_def aio_more_fields [OF served(5)] split: if_splits)
  next
    case (read_failed errno)
    then show ?thesis by (simp add: aio_more_fields [OF read_failed(2)])
  next
    case (closed bs)
    then show ?thesis by (simp add: aio_more_fields [OF closed(2)])
  qed
qed

lemma step_new_task:
  assumes L: "stream_laws A view" and st: "aio_step E A s l t" and inv: "manager_inv view R s"
    and k: "tasks s k = None" "tasks t k = Some w"
  shows "\<exists>u b x. l = Wait_Start k u b \<and> wt_user_data w = u \<and> wt_state w = entered_as x"
  using L inv st
proof (cases rule: aio_stepE)
  case (start j u b x t')
  from L start(3) have "tasks t' = tasks s"
    by (cases rule: wait_enter_effect) (use aio_more_fields(3) in blast)+
  with start k show ?thesis by (auto simp: set_task_def split: if_splits)
next
  case (moved j w' h v v' st' q)
  with k show ?thesis by (auto simp: set_task_def split: if_splits)
next
  case (round x t')
  with k round_tasks [OF L inv round(2)] show ?thesis by simp
next
  case unseen
  with k show ?thesis by simp
qed

text \<open>Waiters are registered on new streams only.\<close>

lemma step_waiters:
  assumes L: "stream_laws A view" and st: "aio_step E A s l t" and inv: "manager_inv view R s"
    and v: "view (streams s) h \<noteq> None" and h: "h \<in> ran (completion_waiters (manager t))"
  shows "h \<in> ran (completion_waiters (manager s))"
  using L inv st
proof (cases rule: aio_stepE)
  case (start j u b x t')
  have h': "h \<in> ran (completion_waiters (manager t'))" using h by (simp add: start(4) set_task_def)
  from L start(3) show ?thesis
  proof (cases rule: wait_enter_effect)
    case (failed e)
    from aio_more_fields(1) [OF failed(2)] h' show ?thesis by simp
  next
    case (registered g)
    with h' v show ?thesis by (auto simp: ran_def split: if_splits)
  qed
next
  case (moved j w' h v v' st' q)
  with h show ?thesis by (simp add: set_task_def)
next
  case (round x t')
  with h round_tasks [OF L inv round(2)] show ?thesis by auto
next
  case unseen
  with h show ?thesis by simp
qed

section \<open>Waits that never end\<close>

text \<open>
  A call is stranded when it has been given nothing and no waiter is registered on its stream; it
  stays so until it is cancelled, and a cancelled call stays cancelled.
\<close>

definition stranded ::
  "('q \<Rightarrow> stream \<rightharpoonup> stream_view) \<Rightarrow> nat \<Rightarrow> ('r, 'w, 'q, 'z) aio_scheme \<Rightarrow> bool" where
  "stranded view k s \<longleftrightarrow> (\<exists>w h. tasks s k = Some w \<and>
     (wt_state w = Entered h \<or> wt_state w = Receiving h \<and> view (streams s) h = Some waiting_stream) \<and>
     h \<notin> ran (completion_waiters (manager s)))"

definition cancelled :: "nat \<Rightarrow> ('r, 'w, 'q, 'z) aio_scheme \<Rightarrow> bool" where
  "cancelled k s \<longleftrightarrow> (\<exists>w h. tasks s k = Some w \<and> wt_state w = Cancelled h)"

lemma waiting_not_offered [simp]:
  "waiting_stream \<noteq> offered ev waiting_stream" "offered ev waiting_stream \<noteq> waiting_stream"
  by (metis item_simps option.distinct(1))+

lemma cancelled_step:
  assumes L: "stream_laws A view" and st: "aio_step E A s l t" and inv: "manager_inv view R s"
    and k: "cancelled k s"
  shows "cancelled k t"
proof -
  obtain w h where w: "tasks s k = Some w" "wt_state w = Cancelled h"
    using k unfolding cancelled_def by blast
  from step_task [OF L inv st w(1)] w(2) show ?thesis
    by cases (auto simp: cancelled_def)
qed

lemma stranded_step:
  assumes L: "stream_laws A view" and st: "aio_step E A s l t" and inv: "manager_inv view R s"
    and k: "stranded view k s"
  shows "stranded view k t \<or> cancelled k t"
proof -
  obtain w h where w: "tasks s k = Some w"
    and out: "h \<notin> ran (completion_waiters (manager s))"
    and place: "wt_state w = Entered h \<or> wt_state w = Receiving h \<and> view (streams s) h = Some waiting_stream"
    using k unfolding stranded_def by blast
  then have h: "stream_of (wt_state w) = Some h" by auto
  have "view (streams s) h \<noteq> None"
    using wait_ok_stream [OF manager_inv_waitD [OF inv w] h] by blast
  then have out': "h \<notin> ran (completion_waiters (manager t))"
    using step_waiters [OF L st inv] out by blast
  from L inv st w show ?thesis
  proof (cases rule: step_task)
    case (receive h')
    with place out' show ?thesis by (auto simp: stranded_def)
  next
    case (return_ h' ev x)
    with place show ?thesis by auto
  next
    case (cancel h')
    then show ?thesis by (auto simp: cancelled_def)
  next
    case idle
    then have "stranded view k t" using place h out'
      unfolding stranded_def by (intro exI [of _ w] exI [of _ h]) auto
    then show ?thesis by simp
  next
    case (offer evs ev h')
    then have "h \<in> ran (completion_waiters (manager s))" using h by (auto simp: ran_def)
    with out show ?thesis by simp
  qed
qed

lemma manager_inv_runs:
  assumes L: "stream_laws A view"
  shows "aio_run E A s ls t \<Longrightarrow> manager_inv view R s \<Longrightarrow> manager_inv view (R \<union> set (fetched ls)) t"
proof (induction rule: aio_run.induct)
  case (aio_snoc s ls t l u)
  then show ?case
    using manager_inv_step [OF L aio_snoc(2), of "R \<union> set (fetched ls)"] by (simp add: Un_assoc)
qed simp

lemma lost_run:
  assumes L: "stream_laws A view"
  shows "aio_run E A s ls t \<Longrightarrow> manager_inv view R s \<Longrightarrow> stranded view k s \<or> cancelled k s \<Longrightarrow>
    stranded view k t \<or> cancelled k t"
proof (induction rule: aio_run.induct)
  case (aio_snoc s ls t l u)
  note inv = manager_inv_runs [OF L aio_snoc(1,4)]
  from aio_snoc stranded_step [OF L aio_snoc(2) inv] cancelled_step [OF L aio_snoc(2) inv]
  show ?case by blast
qed simp

text \<open>A call that has been handed its event keeps it until it returns or is cancelled.\<close>

definition given ::
  "('q \<Rightarrow> stream \<rightharpoonup> stream_view) \<Rightarrow> nat \<Rightarrow> completion_event \<Rightarrow> ('r, 'w, 'q, 'z) aio_scheme \<Rightarrow> bool" where
  "given view k ev s \<longleftrightarrow> (\<exists>w h. tasks s k = Some w \<and> wt_state w = Receiving h \<and>
     view (streams s) h = Some (offered ev waiting_stream))"

text \<open>It has returned or raised what its event calls for, unless it was cancelled.\<close>

definition finished :: "nat \<Rightarrow> completion_event \<Rightarrow> ('r, 'w, 'q, 'z) aio_scheme \<Rightarrow> bool" where
  "finished k ev s \<longleftrightarrow> (\<exists>w h. tasks s k = Some w \<and>
     (wt_state w = Cancelled h \<or> wt_state w = returned_as h (outcome_of (wt_autoraise w) ev)))"

lemma returned_as_final [simp]:
  "returned_as h x \<noteq> Entered g" "returned_as h x \<noteq> Receiving g"
  "Entered g \<noteq> returned_as h x" "Receiving g \<noteq> returned_as h x"
  by (cases x; simp)+

lemma given_step:
  assumes L: "stream_laws A view" and st: "aio_step E A s l t" and inv: "manager_inv view R s"
    and k: "given view k ev s \<or> finished k ev s"
  shows "given view k ev t \<or> finished k ev t"
  using k
proof
  assume "given view k ev s"
  then obtain w h where w: "tasks s k = Some w" "wt_state w = Receiving h"
    "view (streams s) h = Some (offered ev waiting_stream)" unfolding given_def by blast
  from L inv st w(1) show ?thesis
  proof (cases rule: step_task)
    case (return_ h' ev' x)
    then have "sv_item (offered ev' waiting_stream) = sv_item (offered ev waiting_stream)"
      using w(2,3) by simp
    with return_ have "finished k ev t" by (auto simp: finished_def)
    then show ?thesis by simp
  qed (use w(2,3) in \<open>auto simp: given_def finished_def\<close>)
next
  assume "finished k ev s"
  then obtain w h where w: "tasks s k = Some w"
    "wt_state w = Cancelled h \<or> wt_state w = returned_as h (outcome_of (wt_autoraise w) ev)"
    unfolding finished_def by blast
  from step_task [OF L inv st w(1)] w(2) show ?thesis
    by cases (auto simp: finished_def)
qed

lemma given_run:
  assumes L: "stream_laws A view"
  shows "aio_run E A s ls t \<Longrightarrow> manager_inv view R s \<Longrightarrow> given view k ev s \<Longrightarrow>
    given view k ev t \<or> finished k ev t"
proof (induction rule: aio_run.induct)
  case (aio_snoc s ls t l u)
  from aio_snoc given_step [OF L aio_snoc(2) manager_inv_runs [OF L aio_snoc(1,4)]]
  show ?case by blast
qed simp

lemma cancelled_run:
  assumes L: "stream_laws A view"
  shows "aio_run E A s ls t \<Longrightarrow> manager_inv view R s \<Longrightarrow> cancelled k s \<Longrightarrow> cancelled k t"
proof (induction rule: aio_run.induct)
  case (aio_snoc s ls t l u)
  from aio_snoc cancelled_step [OF L aio_snoc(2) manager_inv_runs [OF L aio_snoc(1,4)]]
  show ?case by blast
qed simp

lemma lost_outcome:
  assumes L: "stream_laws A view" and "stranded view k s \<or> cancelled k s"
  shows "\<exists>w h. tasks s k = Some w \<and> (wt_state w = Entered h \<or>
    wt_state w = Receiving h \<and> sm_received A h (streams s) = None \<or> wt_state w = Cancelled h)"
  using assms(2) stream_lawsD(7) [OF L, where q = "streams s" and v = waiting_stream]
  unfolding stranded_def cancelled_def by fastforce

text \<open>A registered task that is waiting has not been given anything yet.\<close>

lemma registered_waiting:
  assumes inv: "manager_inv view R s" and k: "tasks s k = Some w" "wt_state w = Receiving h"
    and reg: "completion_waiters (manager s) u = Some h"
  shows "view (streams s) h = Some waiting_stream"
proof -
  obtain x where "view (streams s) h = Some x" "sv_send_open x"
    using inv reg unfolding manager_inv_def waiters_ok_def by blast
  moreover have "\<not> sv_send_open (offered e waiting_stream)" for e
    by (simp add: offered_def send_error_def new_stream_def)
  ultimately show ?thesis using manager_inv_waitD [OF inv k(1)] k(2) by auto
qed

text \<open>A round gives the first event for a value to the task that waits for it.\<close>

lemma round_gives:
  assumes L: "stream_laws A view" and inv: "manager_inv view R s" and st: "aio_step E A s (Round (Inr evs)) t"
    and k: "tasks s k = Some w" "wt_state w = Receiving h"
    and reg: "completion_waiters (manager s) (wt_user_data w) = Some h"
    and first: "first_event evs (wt_user_data w) = Some ev"
  shows "given view k ev t"
proof -
  note waiting = registered_waiting [OF inv k reg]
  from L inv st k(1) show ?thesis
  proof (cases rule: step_task)
    case (offer evs' ev' h')
    with k(2) waiting first show ?thesis by (auto simp: given_def)
  next
    case idle
    from st show ?thesis
    proof cases
      case (aio_round t')
      have ok: "waiters_ok view s" using inv by (simp add: manager_inv_def)
      from L ok aio_round(3) show ?thesis
      proof (cases rule: dispatch_roundE)
        case (served bs s1 evs' s2)
        note same = aio_more_fields [OF served(5)]
        from served(1,6) reg first have "view (streams t) h = map_option (offered ev) (view (streams s) h)"
          by (auto simp: dispatched_def aio_round(1) same)
        with idle k(2) waiting show ?thesis by (auto simp: given_def)
      qed simp_all
    qed
  qed simp_all
qed

text \<open>Nothing keeps a task that has been given its event from ending.\<close>

lemma given_ends:
  assumes L: "stream_laws A view" and "given view k ev s"
  shows "\<exists>w h t. tasks s k = Some w \<and> wt_state w = Receiving h \<and> aio_step E A s (Wait_Return k) t \<and>
    tasks t k = Some (w\<lparr>wt_state := returned_as h (outcome_of (wt_autoraise w) ev)\<rparr>)"
proof -
  obtain w h where w: "tasks s k = Some w" "wt_state w = Receiving h"
    and item: "view (streams s) h = Some (offered ev waiting_stream)"
    using assms(2) unfolding given_def by blast
  have "sm_received A h (streams s) = Some ev" using stream_lawsD(7) [OF L item] by simp
  from aio_return [OF w this wait_return_eq] w show ?thesis
    by (intro exI [of _ w] exI [of _ h] exI) (auto simp: set_task_def)
qed

text \<open>What a successful round leaves in the manager and in the ring.\<close>

lemma round_effect:
  assumes L: "stream_laws A view" and inv: "manager_inv view R s" and st: "aio_step E A s (Round (Inr evs)) t"
  shows "completion_waiters (manager t) =
      completion_waiters (manager s) |` {u. first_event evs u = None} \<and> dispatcher t = Running \<and>
    (\<forall>ev \<in> set evs. owned_data (ring t) (ev_user_data ev) = None)"
  using st
proof cases
  case (aio_round t')
  have ok: "waiters_ok view s" using inv by (simp add: manager_inv_def)
  from L ok aio_round(3) show ?thesis
  proof (cases rule: dispatch_roundE)
    case (served bs s1 evs' s2)
    then have evs: "evs' = evs" by simp
    have "ring t' = ring s2" "completion_waiters (manager t') =
        completion_waiters (manager s2) |` {u. first_event evs u = None}"
      using served(6) evs by (auto simp: dispatched_def)
    with source.entries_release [OF served(3)] aio_more_fields(1) [OF served(5)]
    show ?thesis by (simp add: aio_round(1) evs)
  qed simp_all
qed

lemma round_unregisters:
  assumes L: "stream_laws A view" and inv: "manager_inv view R s" and st: "aio_step E A s (Round (Inr evs)) t"
    and reg: "completion_waiters (manager s) u = Some h" and first: "first_event evs u \<noteq> None"
  shows "h \<notin> ran (completion_waiters (manager t))"
proof
  assume "h \<in> ran (completion_waiters (manager t))"
  then obtain u' where "completion_waiters (manager s) u' = Some h" "first_event evs u' = None"
    using round_effect [OF L inv st] by (auto simp: ran_def restrict_map_def split: if_splits)
  moreover from this(1) reg inv have "u' = u"
    unfolding manager_inv_def waiters_ok_def inj_on_def by (metis domI)
  ultimately show False using first by simp
qed

lemma round_cleans:
  assumes L: "stream_laws A view" and inv: "manager_inv view R s" and st: "aio_step E A s (Round (Inr evs)) t"
    and ev: "ev \<in> set evs" "\<not> should_be_ignored ev"
  shows "dispatcher t = Running \<and> owned_data (ring t) (ev_user_data ev) = None \<and>
    completion_waiters (manager t) (uint (ev_user_data ev)) = None"
proof -
  have "find (addressed (uint (ev_user_data ev))) evs \<noteq> None"
    using ev by (auto simp: find_None_iff addressed_def)
  then have "first_event evs (uint (ev_user_data ev)) \<noteq> None" by (simp add: first_event_def)
  with round_effect [OF L inv st] ev show ?thesis by auto
qed

end
