(* ===== verification/Manager_Sample.thy ===== *)
theory Manager_Sample
  imports Manager_Lost
begin

text \<open>
  Histories of the manager on concrete states, for the witnesses: an executable form of the steps
  and a few short programs.
\<close>

section \<open>Running the steps\<close>

datatype act =
    Act_Ring call
  | Act_Start nat int bool
  | Act_Receive nat
  | Act_Return nat
  | Act_Cancel nat
  | Act_Round

fun exec_act ::
  "('r, 'w) env \<Rightarrow> 'q stream_api \<Rightarrow> act \<Rightarrow> ('r, 'w, 'q, 'z) aio_scheme \<Rightarrow>
     (aio_label \<times> ('r, 'w, 'q, 'z) aio_scheme) option" where
  "exec_act E A (Act_Ring c) s =
     (if c = Elsewhere then None
      else (case exec_call E c s of None \<Rightarrow> None | Some (v, t) \<Rightarrow> Some (Ring_Call c v, t)))"
| "exec_act E A (Act_Start k u b) s =
     (case tasks s k of Some _ \<Rightarrow> None
      | None \<Rightarrow> (case wait_enter E A u s of (x, t) \<Rightarrow> Some (Wait_Start k u b,
          set_task k \<lparr>wt_user_data = u, wt_autoraise = b, wt_state = entered_as x\<rparr> (entered_as x) t)))"
| "exec_act E A (Act_Receive k) s =
     (case tasks s k of None \<Rightarrow> None
      | Some w \<Rightarrow> (case wt_state w of
          Entered h \<Rightarrow> (case wait_receive A h s of
            (x, t) \<Rightarrow> Some (Wait_Receive k, set_task k w (received_as h x) t))
        | _ \<Rightarrow> None))"
| "exec_act E A (Act_Return k) s =
     (case tasks s k of None \<Rightarrow> None
      | Some w \<Rightarrow> (case wt_state w of
          Receiving h \<Rightarrow> (case sm_received A h (streams s) of None \<Rightarrow> None
            | Some ev \<Rightarrow> (case wait_return A h (wt_autoraise w) ev s of
                (x, t) \<Rightarrow> Some (Wait_Return k, set_task k w (returned_as h x) t)))
        | _ \<Rightarrow> None))"
| "exec_act E A (Act_Cancel k) s =
     (case tasks s k of None \<Rightarrow> None
      | Some w \<Rightarrow> (case wt_state w of
          Entered h \<Rightarrow> Some (Wait_Cancel k, set_task k w (Cancelled h) (close_receive A h s))
        | Receiving h \<Rightarrow> Some (Wait_Cancel k, set_task k w (Cancelled h) (close_receive A h s))
        | _ \<Rightarrow> None))"
| "exec_act E A Act_Round s =
     (if dispatcher s = Running
      then (case dispatch_round E A s of None \<Rightarrow> None
            | Some (x, t) \<Rightarrow> Some (Round x,
                t\<lparr>dispatcher := (case x of Inl e \<Rightarrow> Failed e | Inr _ \<Rightarrow> Running)\<rparr>))
      else None)"

lemma exec_act_step: "exec_act E A a s = Some (l, t) \<Longrightarrow> aio_step E A s l t"
  by (cases a)
    (auto intro: aio_ring exec_call_step aio_start aio_receive aio_return aio_cancel aio_round
      split: if_splits option.splits prod.splits wait_state.splits)

fun exec_acts ::
  "('r, 'w) env \<Rightarrow> 'q stream_api \<Rightarrow> act list \<Rightarrow> aio_label list \<times> ('r, 'w, 'q, 'z) aio_scheme \<Rightarrow>
     (aio_label list \<times> ('r, 'w, 'q, 'z) aio_scheme) option" where
  "exec_acts E A [] p = Some p"
| "exec_acts E A (a # as) p =
     (case exec_act E A a (snd p) of None \<Rightarrow> None
      | Some (l, t) \<Rightarrow> exec_acts E A as (fst p @ [l], t))"

lemma exec_acts_run:
  "aio_run E A s ls t \<Longrightarrow> exec_acts E A as (ls, t) = Some (ls', u) \<Longrightarrow> aio_run E A s ls' u"
proof (induction as arbitrary: ls t)
  case Nil
  then show ?case by simp
next
  case (Cons a as)
  then obtain l t' where step: "exec_act E A a t = Some (l, t')"
    and rest: "exec_acts E A as (ls @ [l], t') = Some (ls', u)"
    by (auto split: option.splits)
  from Cons.IH [OF aio_snoc [OF Cons.prems(1) exec_act_step [OF step]] rest] show ?case .
qed

section \<open>A state and some programs\<close>

type_synonym sample_loop = "(sim, int list, stream_view list) aio"

definition sample_aio :: sample_loop where
  "sample_aio = \<lparr>ring = ring sample_state, heap = heap sample_state, brk = brk sample_state,
     handles = handles sample_state, next_href = next_href sample_state, files = files sample_state,
     manager = \<lparr>efd = 9, force_submissions = True, completion_waiters = Map.empty\<rparr>,
     streams = [], tasks = Map.empty, dispatcher = Running\<rparr>"

lemma sample_aio_facts:
  "fresh_manager sample_aio" "create_io_ring sample_env 2 0 0 True True = Inr (ring sample_aio)"
  by (simp_all add: fresh_manager_def sample_aio_def sample_state_created)

text \<open>A program that runs to a state with a checked property.\<close>

lemma exec_check:
  assumes "case exec_acts sample_env sample_streams as ([], sample_aio) of
    None \<Rightarrow> False | Some (ls, t) \<Rightarrow> P ls t"
  shows "\<exists>ls t. aio_run sample_env sample_streams sample_aio ls t \<and> P ls t"
  using assms exec_acts_run [OF aio_nil, of sample_env sample_streams as sample_aio]
  by (auto split: option.splits)

definition prep_acts :: "act list" where
  "prep_acts = [Act_Ring (Request (Prep_Read (FdInt 3) 4 (-1) None)), Act_Start 0 0 True]"

text \<open>The task's state, and the event for its value that a round would now fetch.\<close>

definition next_event :: "int \<Rightarrow> sample_loop \<Rightarrow> completion_event option" where
  "next_event u t = (case exec_act sample_env sample_streams Act_Round t of
     Some (Round (Inr evs), _) \<Rightarrow>
       find (\<lambda>e. \<not> should_be_ignored e \<and> uint (ev_user_data e) = u) evs
   | _ \<Rightarrow> None)"

lemma next_event_round:
  assumes "next_event u t = Some ev"
  obtains evs z where "aio_step sample_env sample_streams t (Round (Inr evs)) z"
    "find (\<lambda>e. \<not> should_be_ignored e \<and> uint (ev_user_data e) = u) evs = Some ev"
  using assms exec_act_step [of sample_env sample_streams Act_Round t]
  by (auto simp: next_event_def split: option.splits prod.splits aio_label.splits sum.splits)

text \<open>Task 0 reads and waits; its completion is fetched while it waits.\<close>

lemma waiting_run:
  "\<exists>ls t w h ev. aio_run sample_env sample_streams sample_aio ls t \<and> tasks t 0 = Some w \<and>
     wt_state w = Receiving h \<and> wt_user_data w = 0 \<and>
     completion_waiters (manager t) 0 = Some h \<and> next_event 0 t = Some ev"
proof -
  have "case exec_acts sample_env sample_streams (prep_acts @ [Act_Receive 0]) ([], sample_aio) of
    None \<Rightarrow> False | Some (ls, t) \<Rightarrow> (case tasks t 0 of None \<Rightarrow> False
    | Some w \<Rightarrow> (case wt_state w of Receiving h \<Rightarrow> wt_user_data w = 0 \<and>
        completion_waiters (manager t) 0 = Some h \<and> next_event 0 t \<noteq> None | _ \<Rightarrow> False))"
    by code_simp
  from exec_check [OF this] show ?thesis
    by (fastforce split: option.splits wait_state.splits)
qed

text \<open>The same, but its completion is fetched before the task waits on its stream.\<close>

lemma too_early_run:
  "\<exists>ls t w h ev. aio_run sample_env sample_streams sample_aio ls t \<and> tasks t 0 = Some w \<and>
     wt_state w = Entered h \<and> wt_user_data w = 0 \<and>
     completion_waiters (manager t) 0 = Some h \<and> next_event 0 t = Some ev"
proof -
  have "case exec_acts sample_env sample_streams prep_acts ([], sample_aio) of
    None \<Rightarrow> False | Some (ls, t) \<Rightarrow> (case tasks t 0 of None \<Rightarrow> False
    | Some w \<Rightarrow> (case wt_state w of Entered h \<Rightarrow> wt_user_data w = 0 \<and>
        completion_waiters (manager t) 0 = Some h \<and> next_event 0 t \<noteq> None | _ \<Rightarrow> False))"
    by code_simp
  from exec_check [OF this] show ?thesis
    by (fastforce split: option.splits wait_state.splits)
qed

text \<open>The waiting task gets its bytes.\<close>

lemma woken_run:
  "\<exists>ls t w h ev. aio_run sample_env sample_streams sample_aio ls t \<and> length ls = 5 \<and>
     tasks t 0 = Some w \<and> wt_state w = Returned h ev \<and> ev_buffer ev = Some [42, 42, 42]"
proof -
  have "case exec_acts sample_env sample_streams (prep_acts @ [Act_Receive 0, Act_Round, Act_Return 0])
      ([], sample_aio) of None \<Rightarrow> False
    | Some (ls, t) \<Rightarrow> length ls = 5 \<and> (case tasks t 0 of None \<Rightarrow> False
      | Some w \<Rightarrow> (case wt_state w of Returned h ev \<Rightarrow> ev_buffer ev = Some [42, 42, 42] | _ \<Rightarrow> False))"
    by code_simp
  from exec_check [OF this] show ?thesis
    by (fastforce split: option.splits wait_state.splits)
qed

text \<open>A second task waits for the same value.\<close>

lemma second_wait_run:
  "\<exists>ls t w h u w2 g. aio_run sample_env sample_streams sample_aio ls t \<and> tasks t 0 = Some w \<and>
     wt_state w = Receiving h \<and> wt_user_data w = 0 \<and> completion_waiters (manager t) 0 = Some h \<and>
     aio_step sample_env sample_streams t (Wait_Start 1 0 True) u \<and> tasks u 1 = Some w2 \<and>
     wt_state w2 = Entered g"
proof -
  have "case exec_acts sample_env sample_streams (prep_acts @ [Act_Receive 0]) ([], sample_aio) of
    None \<Rightarrow> False | Some (ls, t) \<Rightarrow>
      (case tasks t 0 of None \<Rightarrow> False | Some w \<Rightarrow> (case wt_state w of
         Receiving h \<Rightarrow> wt_user_data w = 0 \<and> completion_waiters (manager t) 0 = Some h | _ \<Rightarrow> False)) \<and>
      (case exec_act sample_env sample_streams (Act_Start 1 0 True) t of None \<Rightarrow> False
       | Some (l, u) \<Rightarrow> (case tasks u 1 of None \<Rightarrow> False
          | Some w2 \<Rightarrow> (case wt_state w2 of Entered g \<Rightarrow> True | _ \<Rightarrow> False)))"
    by code_simp
  from exec_check [OF this] obtain ls t where
    run: "aio_run sample_env sample_streams sample_aio ls t"
    and waits: "case tasks t 0 of None \<Rightarrow> False | Some w \<Rightarrow> (case wt_state w of
         Receiving h \<Rightarrow> wt_user_data w = 0 \<and> completion_waiters (manager t) 0 = Some h | _ \<Rightarrow> False)"
    and starts: "case exec_act sample_env sample_streams (Act_Start 1 0 True) t of None \<Rightarrow> False
       | Some (l, u) \<Rightarrow> (case tasks u 1 of None \<Rightarrow> False
          | Some w2 \<Rightarrow> (case wt_state w2 of Entered g \<Rightarrow> True | _ \<Rightarrow> False))"
    by blast
  from waits obtain w h where w: "tasks t 0 = Some w" "wt_state w = Receiving h" "wt_user_data w = 0"
    "completion_waiters (manager t) 0 = Some h"
    by (auto split: option.splits wait_state.splits)
  from starts obtain l u w2 where
    u: "exec_act sample_env sample_streams (Act_Start 1 0 True) t = Some (l, u)" "tasks u 1 = Some w2"
    and "case wt_state w2 of Entered g \<Rightarrow> True | _ \<Rightarrow> False"
    by (auto simp del: exec_act.simps split: option.splits)
  then obtain g where "wt_state w2 = Entered g" by (cases "wt_state w2") simp_all
  moreover
  from u(1) have "l = Wait_Start 1 0 True" by (auto split: option.splits prod.splits)
  ultimately show ?thesis using run w u exec_act_step [OF u(1)] by blast
qed

text \<open>The waiting task is cancelled before its completion is fetched.\<close>

lemma cancel_run:
  "\<exists>ls t u ev. aio_run sample_env sample_streams sample_aio ls t \<and>
     aio_step sample_env sample_streams t (Wait_Cancel 0) u \<and> next_event 0 u = Some ev"
proof -
  have "case exec_acts sample_env sample_streams (prep_acts @ [Act_Receive 0]) ([], sample_aio) of
    None \<Rightarrow> False | Some (ls, t) \<Rightarrow>
      (case exec_act sample_env sample_streams (Act_Cancel 0) t of None \<Rightarrow> False
       | Some (l, u) \<Rightarrow> next_event 0 u \<noteq> None)"
    by code_simp
  from exec_check [OF this] obtain ls t where
    run: "aio_run sample_env sample_streams sample_aio ls t"
    and cancels: "case exec_act sample_env sample_streams (Act_Cancel 0) t of None \<Rightarrow> False
       | Some (l, u) \<Rightarrow> next_event 0 u \<noteq> None" by blast
  from cancels obtain l u ev where "next_event 0 u = Some ev"
    and u: "exec_act sample_env sample_streams (Act_Cancel 0) t = Some (l, u)"
    by (auto simp del: exec_act.simps split: option.splits)
  moreover from u have "l = Wait_Cancel 0" by (auto split: option.splits wait_state.splits)
  ultimately show ?thesis using run exec_act_step [OF u] by blast
qed

end
