(* ===== verification/Api_Spec.thy ===== *)
theory Api_Spec
  imports Api Sample_State
begin

text \<open>
  What the nine methods put into the submission queue, in terms of Python's unbounded integers:
  an abstract description of the entry each request stands for, and the proof that the two layers
  of code and the conversions between them produce exactly that.
\<close>

section \<open>The entry a request stands for\<close>

definition file_fd :: "acceptable_file \<Rightarrow> ('r, 'w, 'z) py_scheme \<Rightarrow> int" where
  "file_fd f s = (case f of FdInt fd \<Rightarrow> fd | FdObj h \<Rightarrow> handle_fd h s)"

definition dir_fd :: "acceptable_file option \<Rightarrow> ('r, 'w, 'z) py_scheme \<Rightarrow> int" where
  "dir_fd dir s = (case dir of None \<Rightarrow> -1 | Some f \<Rightarrow> file_fd f s)"

text \<open>The part of a buffer that a write or a send transmits.\<close>

definition chosen :: "pybuf \<Rightarrow> int option \<Rightarrow> int option \<Rightarrow> u8 list" where
  "chosen buf n start =
     (let bs = buf_bytes buf;
          start = (case start of None \<Rightarrow> 0 | Some k \<Rightarrow> nat k);
          n = (case n of None \<Rightarrow> length bs | Some k \<Rightarrow> nat k)
      in take n (drop start bs))"

text \<open>
  The numbers of the entry are those of the call; only the length of a write is reduced to 32
  bits. Buffers, paths and addresses are in the table under the entry's own \<open>user_data\<close>.
\<close>

fun describes ::
  "('r, 'w) env \<Rightarrow> ('r, 'w, 'z) py_scheme \<Rightarrow> request \<Rightarrow> sqe_op \<Rightarrow> owned_data option \<Rightarrow> bool" where
  "describes E s (Prep_Openat dir path mode flags perms _) p d \<longleftrightarrow>
     (\<exists>fd b fl md. p = OpenAt fd b fl md \<and> sint fd = dir_fd dir s \<and>
        sint fl = openat_raw_flags flags OR mode_value mode \<and> uint md = perms \<and> d = Some (OnePath b))"
| "describes E s (Prep_Close f _) p d \<longleftrightarrow> (\<exists>fd. p = Close fd \<and> sint fd = file_fd f s)"
| "describes E s (Prep_Read f n off _) p d \<longleftrightarrow>
     (\<exists>fd b m k. p = Read fd b m k \<and> sint fd = file_fd f s \<and> uint m = n \<and> sint k = off \<and>
        d = Some (Buffer b))"
| "describes E s (Prep_Write f buf off n start _) p d \<longleftrightarrow>
     (\<exists>fd b m k. p = Write fd b m k \<and> sint fd = file_fd f s \<and>
        unat m = length (chosen buf n start) mod 2 ^ 32 \<and> sint k = off \<and> d = Some (Buffer b))"
| "describes E s (Prep_Create_Socket domain kind protocol nb _) p d \<longleftrightarrow>
     (\<exists>dm k pr. p = Socket dm k pr \<and> sint dm = domain \<and>
        sint k = kind OR SOCK_CLOEXEC OR (if nb then SOCK_NONBLOCK else 0) \<and> sint pr = protocol)"
| "describes E s (Prep_Connect_V4 f address port _) p d \<longleftrightarrow>
     (\<exists>fd b v4 pt. p = Connect fd b (of_nat (length (env_sockaddr E (SockV4 (map of_nat v4) pt)))) \<and>
        sint fd = file_fd f s \<and> ipv4_from_str (py_str_v4 address) = Some v4 \<and> uint pt = port \<and>
        d = Some (SockAddr b))"
| "describes E s (Prep_Connect_V6 f address port _) p d \<longleftrightarrow>
     (\<exists>fd b v6 pt. p = Connect fd b (of_nat (length (env_sockaddr E (SockV6 (map of_nat v6) pt)))) \<and>
        sint fd = file_fd f s \<and> ipv6_from_str address = Some v6 \<and> uint pt = port \<and>
        d = Some (SockAddr b))"
| "describes E s (Prep_Recv f n flags _) p d \<longleftrightarrow>
     (\<exists>fd b m fl. p = Recv fd b m fl \<and> sint fd = file_fd f s \<and> uint m = n \<and> sint fl = flags \<and>
        d = Some (Buffer b))"
| "describes E s (Prep_Send f buf n start flags _) p d \<longleftrightarrow>
     (\<exists>fd b m fl. p = Send fd b m fl \<and> sint fd = file_fd f s \<and>
        unat m = length (chosen buf n start) mod 2 ^ 32 \<and> sint fl = flags \<and> d = Some (Buffer b))"

text \<open>The flags a request is made with.\<close>

fun flags_of :: "request \<Rightarrow> int option" where
  "flags_of (Prep_Openat _ _ _ _ _ fl) = fl"
| "flags_of (Prep_Close _ fl) = fl"
| "flags_of (Prep_Read _ _ _ fl) = fl"
| "flags_of (Prep_Write _ _ _ _ _ fl) = fl"
| "flags_of (Prep_Create_Socket _ _ _ _ fl) = fl"
| "flags_of (Prep_Connect_V4 _ _ _ fl) = fl"
| "flags_of (Prep_Connect_V6 _ _ _ fl) = fl"
| "flags_of (Prep_Recv _ _ _ fl) = fl"
| "flags_of (Prep_Send _ _ _ _ _ fl) = fl"

section \<open>Programs that submit one entry\<close>

definition submits ::
  "('r, 'w) env \<Rightarrow> u64 \<Rightarrow> (('r, 'z) st_scheme, unit) prog \<Rightarrow> (sqe_op \<Rightarrow> u8 \<Rightarrow> owned_data option \<Rightarrow> bool) \<Rightarrow> bool"
  where
  "submits E ud m Q \<longleftrightarrow> (\<forall>s t. m s = (Inr (), t) \<longrightarrow> (\<exists>e r r'. ur_push (env_ring E) e r = Some r' \<and>
     the_io_uring (ring t) = Some r' \<and> sqe_user_data e = ud \<and>
     Q (op_of e) (sqe_flag_bits e) (owned_data (ring t) ud)))"

lemma submits_require: "submits E ud m Q \<Longrightarrow> submits E ud (bindP (require_support c n) (\<lambda>_. m)) Q"
  by (simp add: submits_def bindP_require_support)

lemma submits_refuse: "submits E ud m Q \<Longrightarrow> submits E ud (bindP (refuse_skip_success E' fl) (\<lambda>_. m)) Q"
  by (simp add: submits_def bindP_refuse_skip)

lemma submits_lift:
  "(\<And>x. r = Inr x \<Longrightarrow> submits E ud (f x) Q) \<Longrightarrow> submits E ud (bindP (liftP r) f) Q"
  by (cases r) (simp_all add: submits_def bindP_liftP)

lemma submits_plain:
  assumes "\<And>d. Q (op_of e) (sqe_flag_bits e) d" "sqe_user_data e = ud"
  shows "submits E ud (autosubmit E e) Q"
  unfolding submits_def
proof (intro allI impI)
  fix s t assume "autosubmit E e s = (Inr (), t)"
  with autosubmit_pushed' [of E e s] assms show "\<exists>e r r'. ur_push (env_ring E) e r = Some r' \<and>
      the_io_uring (ring t) = Some r' \<and> sqe_user_data e = ud \<and> Q (op_of e) (sqe_flag_bits e) (owned_data (ring t) ud)"
    by fastforce
qed

lemma submits_owned:
  fixes m :: "block \<Rightarrow> (('r, 'z) st_scheme, unit) prog" and E :: "('r, 'w) env"
  assumes "\<And>b. submits E ud (m b) (\<lambda>p fb _. Q p fb (Some (d b)))"
  shows "submits E ud (bindP (alloc bs) (\<lambda>b.
    bindP (or_drop b (m b)) (\<lambda>_. modP (owned_insert ud (d b))))) Q"
  unfolding submits_def
proof (intro allI impI)
  fix s t :: "('r, 'z) st_scheme"
  assume run: "bindP (alloc bs) (\<lambda>b. bindP (or_drop b (m b)) (\<lambda>_. modP (owned_insert ud (d b)))) s = (Inr (), t)"
  obtain b s1 where al: "alloc bs s = (Inr b, s1)" by (simp add: alloc_def)
  with run obtain t1 where "m b s1 = (Inr (), t1)" "t = owned_insert ud (d b) t1"
    by (auto simp: bindP_def or_drop_def split: prod.splits sum.splits)
  with assms [of b, unfolded submits_def, rule_format, of s1 t1]
  show "\<exists>e r r'. ur_push (env_ring E) e r = Some r' \<and> the_io_uring (ring t) = Some r' \<and>
      sqe_user_data e = ud \<and> Q (op_of e) (sqe_flag_bits e) (owned_data (ring t) ud)" by simp
qed

lemmas submits_rules = submits_require submits_refuse submits_lift submits_owned submits_plain

section \<open>The Rust functions\<close>

lemma submits_openat:
  "submits E ud (ioring_prep_openat E dirfd path ud flags mode fl)
     (\<lambda>p fb d. \<exists>b. p = OpenAt dirfd b flags mode \<and> d = Some (OnePath b) \<and>
        fb = parse_flags (env_flags E) fl)"
  unfolding ioring_prep_openat_def add_owned_path_def by (intro submits_rules) simp_all

lemma submits_close: "submits E ud (ioring_prep_close E fd ud fl) (\<lambda>p fb d. p = Close fd \<and>
        fb = parse_flags (env_flags E) fl)"
  unfolding ioring_prep_close_def by (intro submits_rules) simp_all

lemma submits_read:
  "submits E ud (ioring_prep_read E fd n off ud fl)
     (\<lambda>p fb d. \<exists>b. p = Read fd b n off \<and> d = Some (Buffer b) \<and>
        fb = parse_flags (env_flags E) fl)"
  unfolding ioring_prep_read_def add_owned_buffer_def by (intro submits_rules) simp_all

text \<open>A wrapped \<open>offset + size\<close> would be below the offset, which the slice refuses.\<close>

lemma checked_slice:
  assumes check: "check_write_buffer data sz start = Inr end_offset"
    and slice: "slice_range data start end_offset = Inr bytes"
  shows "bytes = take (unat sz) (drop (unat start) data)"
proof -
  have e: "end_offset = start + sz" using check by (simp add: check_write_buffer_def Let_def split: if_splits)
  have le: "unat start \<le> unat (start + sz)" and b: "bytes = take (unat (start + sz) - unat start) (drop (unat start) data)"
    using slice by (simp_all add: slice_range_def e split: if_splits)
  have "unat sz < 2 ^ 64" using unsigned_less [of sz] by simp
  with le have "unat (start + sz) = unat start + unat sz"
    using unat_plus_if' [of start sz] by (simp split: if_splits)
  with b show ?thesis by simp
qed

lemma submits_write:
  "submits E ud (ioring_prep_write E fd data sz start off ud fl)
     (\<lambda>p fb d. \<exists>b e bytes. check_write_buffer data sz start = Inr e \<and> slice_range data start e = Inr bytes \<and>
        p = Write fd b (of_nat (length bytes)) off \<and> d = Some (Buffer b) \<and>
        fb = parse_flags (env_flags E) fl)"
  unfolding ioring_prep_write_def add_owned_buffer_def by (intro submits_rules) simp_all

lemma submits_create_socket:
  "submits E ud (ioring_prep_create_socket E domain kind protocol ud fl)
     (\<lambda>p fb d. p = Socket domain kind protocol \<and>
        fb = parse_flags (env_flags E) fl)"
  unfolding ioring_prep_create_socket_def by (intro submits_rules) simp_all

lemma submits_sockaddr:
  "submits E ud (do_sockaddr_submit E fd addr ud fl)
     (\<lambda>p fb d. \<exists>b. p = Connect fd b (of_nat (length (env_sockaddr E addr))) \<and> d = Some (SockAddr b) \<and>
        fb = parse_flags (env_flags E) fl)"
  unfolding do_sockaddr_submit_def add_owned_sockaddr_def Let_def
  by (intro submits_rules) simp_all

lemma submits_mono: "submits E ud m Q \<Longrightarrow> (\<And>p fb d. Q p fb d \<Longrightarrow> Q' p fb d) \<Longrightarrow> submits E ud m Q'"
  unfolding submits_def by metis

lemma submits_connect_v4:
  "submits E ud (ioring_prep_connect_v4 E fd ip port ud fl)
     (\<lambda>p fb d. \<exists>b v4. ipv4_from_str ip = Some v4 \<and>
        p = Connect fd b (of_nat (length (env_sockaddr E (SockV4 (map of_nat v4) port)))) \<and>
        d = Some (SockAddr b) \<and>
        fb = parse_flags (env_flags E) fl)"
  unfolding ioring_prep_connect_v4_def
  by (intro submits_require submits_lift submits_mono [OF submits_sockaddr])
    (auto simp: parse_or_raise_def split: option.splits)

lemma submits_connect_v6:
  "submits E ud (ioring_prep_connect_v6 E fd ip port ud fl)
     (\<lambda>p fb d. \<exists>b v6. ipv6_from_str ip = Some v6 \<and>
        p = Connect fd b (of_nat (length (env_sockaddr E (SockV6 (map of_nat v6) port)))) \<and>
        d = Some (SockAddr b) \<and>
        fb = parse_flags (env_flags E) fl)"
  unfolding ioring_prep_connect_v6_def
  by (intro submits_require submits_lift submits_mono [OF submits_sockaddr])
    (auto simp: parse_or_raise_def split: option.splits)

lemma submits_recv:
  "submits E ud (ioring_prep_recv E fd n flags ud fl)
     (\<lambda>p fb d. \<exists>b. p = Recv fd b n flags \<and> d = Some (Buffer b) \<and>
        fb = parse_flags (env_flags E) fl)"
  unfolding ioring_prep_recv_def add_owned_buffer_def by (intro submits_rules) simp_all

lemma submits_send:
  "submits E ud (ioring_prep_send E fd data sz start flags ud fl)
     (\<lambda>p fb d. \<exists>b e bytes. check_write_buffer data sz start = Inr e \<and> slice_range data start e = Inr bytes \<and>
        p = Send fd b (of_nat (length bytes)) flags \<and> d = Some (Buffer b) \<and>
        fb = parse_flags (env_flags E) fl)"
  unfolding ioring_prep_send_def add_owned_buffer_def by (intro submits_rules) simp_all

section \<open>Conversions keep the numbers\<close>

lemma conv_value:
  "converts_signed c \<Longrightarrow> c n = Inr w \<Longrightarrow> sint (w :: 'w::len word) = n"
  "converts_unsigned c' \<Longrightarrow> c' n = Inr w \<Longrightarrow> uint (w :: 'w::len word) = n"
proof -
  show "uint w = n" if "converts_unsigned c'" "c' n = Inr w"
    using that by (auto simp: converts_unsigned_def uint_word_of_int split: if_splits)
  show "sint w = n" if "converts_signed c" "c n = Inr w"
  proof -
    have w: "w = word_of_int n" and r: "- (2 ^ (LENGTH('w) - 1)) \<le> n" "n < 2 ^ (LENGTH('w) - 1)"
      using that by (auto simp: converts_signed_def split: if_splits)
    then show ?thesis
      by (simp add: sint_sbintrunc' signed_take_bit_int_eq_self)
  qed
qed

lemma pyo3_value:
  assumes "pyo3_laws P"
  shows "py_i32 P n = Inr w32 \<Longrightarrow> sint w32 = n" "py_i64 P n = Inr w64 \<Longrightarrow> sint w64 = n"
    "py_u32 P n = Inr v32 \<Longrightarrow> uint v32 = n" "py_u16 P n = Inr v16 \<Longrightarrow> uint v16 = n"
    "py_u8 P n = Inr v8 \<Longrightarrow> uint v8 = n" "py_u64 P n = Inr v64 \<Longrightarrow> uint v64 = n"
    "py_usize P n = Inr vs \<Longrightarrow> uint vs = n" "py_bytes P buf = Inr bs \<Longrightarrow> buf = Bytes bs"
  using assms unfolding pyo3_laws_def
  by (auto intro: conv_value) (cases buf; auto)

section \<open>From the methods to the entry\<close>

lemma handle_fd_counter [simp]:
  "handle_fd h (snd (get_next_user_data s)) = handle_fd h s"
  "close_called h (snd (get_next_user_data s)) = close_called h s"
  by (simp_all add: get_next_user_data_def handle_defs)

lemma unwrap_file_value: "fst (unwrap_file f s) = Inr fd \<Longrightarrow> fd = file_fd f s"
  by (auto simp: unwrap_file_app file_fd_def split: acceptable_file.splits if_splits)

lemma file_fd_counter [simp]: "file_fd f (snd (get_next_user_data s)) = file_fd f s"
  by (simp add: file_fd_def split: acceptable_file.split)

lemma openat_dirfd_value: "openat_dirfd dir s = (Inr fd, t) \<Longrightarrow> fd = dir_fd dir s \<and> t = s"
  by (cases dir rule: openat_dirfd.cases) (auto simp: dir_fd_def file_fd_def)

text \<open>The last entry of the queue, with what the table holds for it.\<close>

definition queued ::
  "('r, 'w) env \<Rightarrow> u64 \<Rightarrow> ('r, 'z) st_scheme \<Rightarrow> (sqe_op \<Rightarrow> u8 \<Rightarrow> owned_data option \<Rightarrow> bool) \<Rightarrow> bool" where
  "queued E u t Q \<longleftrightarrow> (\<exists>e r r'. ur_push (env_ring E) e r = Some r' \<and> the_io_uring (ring t) = Some r' \<and>
     sqe_user_data e = u \<and> Q (op_of e) (sqe_flag_bits e) (owned_data (ring t) u))"

lemma queued_mono: "queued E u t Q \<Longrightarrow> (\<And>p fb d. Q p fb d \<Longrightarrow> Q' p fb d) \<Longrightarrow> queued E u t Q'"
  unfolding queued_def by metis

lemma submitsD: "submits E ud m Q \<Longrightarrow> m s = (Inr (), t) \<Longrightarrow> queued E ud t Q"
  by (auto simp: submits_def queued_def)

lemma numbered_submits:
  assumes run: "numbered op s = (Inr u, t)"
    and sub: "\<And>ud. submits E ud (op ud) Q"
  shows "queued E u t Q"
proof -
  from run obtain s1 where "op u s1 = (Inr (), t)"
    by (auto simp: numbered_def bindP_def get_next_user_data_def split: prod.splits sum.splits)
  with submitsD [OF sub] show ?thesis .
qed

lemma numbered_file_submits:
  assumes run: "numbered (\<lambda>ud. bindP (unwrap_file f) (g ud)) s = (Inr u, t)"
    and sub: "\<And>ud. submits E ud (g ud (file_fd f s)) Q"
  shows "queued E u t Q"
proof -
  let ?s1 = "snd (get_next_user_data s)"
  from run have "bindP (unwrap_file f) (g u) ?s1 = (Inr (), t)"
    by (auto simp: numbered_def bindP_def get_next_user_data_def split: prod.splits sum.splits)
  then obtain fd where "fst (unwrap_file f ?s1) = Inr fd" "g u fd ?s1 = (Inr (), t)"
    by (auto simp: bindP_reads split: sum.splits)
  with unwrap_file_value [of f ?s1 fd] have "g u (file_fd f s) ?s1 = (Inr (), t)" by simp
  with submitsD [OF sub] show ?thesis .
qed

text \<open>The flags of the entry, from the integer the method got.\<close>

definition flags_word :: "('r, 'w) env \<Rightarrow> int \<Rightarrow> u8 \<Rightarrow> bool" where
  "flags_word E fl fb \<longleftrightarrow> (\<exists>w. uint w = fl \<and> fb = parse_flags (env_flags E) w)"

lemma flags_wordI: "pyo3_laws (env_pyo3 E) \<Longrightarrow> py_u8 (env_pyo3 E) fl = Inr w \<Longrightarrow>
    flags_word E fl (parse_flags (env_flags E) w)"
  unfolding flags_word_def using pyo3_value(5) by blast

lemma sub_read:
  assumes P: "pyo3_laws (env_pyo3 E)"
  shows "submits E ud (ffi_prep_read E fd n off ud fl)
     (\<lambda>p fb d. \<exists>f b m k. p = Read f b m k \<and> sint f = fd \<and> uint m = n \<and> sint k = off \<and> d = Some (Buffer b) \<and>
        flags_word E fl fb)"
  unfolding ffi_prep_read_def
  by (intro submits_lift submits_mono [OF submits_read]) (auto intro: flags_wordI [OF P] dest: pyo3_value [OF P])

lemma sub_recv:
  assumes P: "pyo3_laws (env_pyo3 E)"
  shows "submits E ud (ffi_prep_recv E fd n flags ud fl)
     (\<lambda>p fb d. \<exists>f b m k. p = Recv f b m k \<and> sint f = fd \<and> uint m = n \<and> sint k = flags \<and> d = Some (Buffer b) \<and>
        flags_word E fl fb)"
  unfolding ffi_prep_recv_def
  by (intro submits_lift submits_mono [OF submits_recv]) (auto intro: flags_wordI [OF P] dest: pyo3_value [OF P])

lemma sub_close:
  assumes P: "pyo3_laws (env_pyo3 E)"
  shows "submits E ud (ffi_prep_close E fd ud fl) (\<lambda>p fb d. \<exists>f. p = Close f \<and> sint f = fd \<and>
        flags_word E fl fb)"
  unfolding ffi_prep_close_def
  by (intro submits_lift submits_mono [OF submits_close]) (auto intro: flags_wordI [OF P] dest: pyo3_value [OF P])

lemma sub_create_socket:
  assumes P: "pyo3_laws (env_pyo3 E)"
  shows "submits E ud (ffi_prep_create_socket E domain kind protocol ud fl)
     (\<lambda>p fb d. \<exists>dm k pr. p = Socket dm k pr \<and> sint dm = domain \<and> sint k = kind \<and> sint pr = protocol \<and>
        flags_word E fl fb)"
  unfolding ffi_prep_create_socket_def
  by (intro submits_lift submits_mono [OF submits_create_socket]) (auto intro: flags_wordI [OF P] dest: pyo3_value [OF P])

lemma sub_openat:
  assumes P: "pyo3_laws (env_pyo3 E)"
  shows "submits E ud (ffi_prep_openat E dirfd path ud flags perms fl)
     (\<lambda>p fb d. \<exists>f b k md. p = OpenAt f b k md \<and> sint f = dirfd \<and> sint k = flags \<and> uint md = perms \<and>
        d = Some (OnePath b) \<and>
        flags_word E fl fb)"
  unfolding ffi_prep_openat_def
  by (intro submits_lift submits_mono [OF submits_openat]) (auto intro: flags_wordI [OF P] dest: pyo3_value [OF P])

lemma sub_connect_v4:
  assumes P: "pyo3_laws (env_pyo3 E)"
  shows "submits E ud (ffi_prep_connect_v4 E fd ip port ud fl)
     (\<lambda>p fb d. \<exists>f b v4 pt. p = Connect f b (of_nat (length (env_sockaddr E (SockV4 (map of_nat v4) pt)))) \<and>
        sint f = fd \<and> ipv4_from_str ip = Some v4 \<and> uint pt = port \<and> d = Some (SockAddr b) \<and>
        flags_word E fl fb)"
  unfolding ffi_prep_connect_v4_def
  by (intro submits_lift submits_mono [OF submits_connect_v4]) (fastforce intro: flags_wordI [OF P] dest: pyo3_value [OF P])

lemma sub_connect_v6:
  assumes P: "pyo3_laws (env_pyo3 E)"
  shows "submits E ud (ffi_prep_connect_v6 E fd ip port ud fl)
     (\<lambda>p fb d. \<exists>f b v6 pt. p = Connect f b (of_nat (length (env_sockaddr E (SockV6 (map of_nat v6) pt)))) \<and>
        sint f = fd \<and> ipv6_from_str ip = Some v6 \<and> uint pt = port \<and> d = Some (SockAddr b) \<and>
        flags_word E fl fb)"
  unfolding ffi_prep_connect_v6_def
  by (intro submits_lift submits_mono [OF submits_connect_v6]) (fastforce intro: flags_wordI [OF P] dest: pyo3_value [OF P])

lemma unat_u32: "unat (of_nat n :: u32) = n mod 2 ^ 32"
  by (simp add: unat_of_nat)

lemma sub_write:
  assumes P: "pyo3_laws (env_pyo3 E)"
  shows "submits E ud (ffi_prep_write E fd buf n start off ud fl)
     (\<lambda>p fb d. \<exists>f b m k. p = Write f b m k \<and> sint f = fd \<and> sint k = off \<and> d = Some (Buffer b) \<and>
        unat m = length (take (nat n) (drop (nat start) (buf_bytes buf))) mod 2 ^ 32 \<and>
        flags_word E fl fb)"
  unfolding ffi_prep_write_def
  by (intro submits_lift submits_mono [OF submits_write])
    (auto intro: flags_wordI [OF P] dest!: pyo3_value(1-4,6-8) [OF P] checked_slice simp: unat_u32 simp del: length_take)

lemma sub_send:
  assumes P: "pyo3_laws (env_pyo3 E)"
  shows "submits E ud (ffi_prep_send E fd buf n start flags ud fl)
     (\<lambda>p fb d. \<exists>f b m k. p = Send f b m k \<and> sint f = fd \<and> sint k = flags \<and> d = Some (Buffer b) \<and>
        unat m = length (take (nat n) (drop (nat start) (buf_bytes buf))) mod 2 ^ 32 \<and>
        flags_word E fl fb)"
  unfolding ffi_prep_send_def
  by (intro submits_lift submits_mono [OF submits_send])
    (auto intro: flags_wordI [OF P] dest!: pyo3_value(1-4,6-8) [OF P] checked_slice simp: unat_u32 simp del: length_take)

lemma submits_after:
  assumes "submits E ud m Q" "\<And>s. ring (f s) = ring s"
  shows "submits E ud (bindP m (\<lambda>_. modP f)) Q"
  unfolding submits_def
proof (intro allI impI)
  fix s t assume "bindP m (\<lambda>_. modP f) s = (Inr (), t)"
  then obtain t1 where "m s = (Inr (), t1)" "t = f t1"
    by (auto simp: bindP_def split: prod.splits sum.splits)
  with assms show "\<exists>e r r'. ur_push (env_ring E) e r = Some r' \<and> the_io_uring (ring t) = Some r' \<and>
      sqe_user_data e = ud \<and> Q (op_of e) (sqe_flag_bits e) (owned_data (ring t) ud)"
    by (auto simp: submits_def)
qed

lemma int_to_nat_len: "nat (case n of None \<Rightarrow> int k | Some j \<Rightarrow> j) = (case n of None \<Rightarrow> k | Some j \<Rightarrow> nat j)"
  "nat (case n of None \<Rightarrow> 0 | Some j \<Rightarrow> j) = (case n of None \<Rightarrow> 0 | Some j \<Rightarrow> nat j)"
  by (simp_all split: option.split)

lemma guarded_value: "bindP (guardP b e) (\<lambda>_. m) s = (Inr u, t) \<Longrightarrow> m s = (Inr u, t)"
  by (cases b) (simp_all add: bindP_def)

section \<open>The nine methods\<close>

text \<open>The entry is the one the request describes, with the caller's flags.\<close>

abbreviation reaches ::
  "('r, 'w) env \<Rightarrow> ('r, 'w, 'z) py_scheme \<Rightarrow> request \<Rightarrow> u64 \<Rightarrow> ('r, 'w, 'z) py_scheme \<Rightarrow> bool" where
  "reaches E s req u t \<equiv>
     queued E u t (\<lambda>p fb d. describes E s req p d \<and> flags_word E (sqe_flags_or_0 (flags_of req)) fb)"

lemma openat_reaches:
  assumes P: "pyo3_laws (env_pyo3 E)" and run: "prep_openat E dir path mode flags perms fl s = (Inr u, t)"
  shows "reaches E s (Prep_Openat dir path mode flags perms fl) u t"
proof -
  from run obtain fd where fd: "openat_dirfd dir s = (Inr fd, s)" and
    num: "numbered (\<lambda>ud. ffi_prep_openat E fd path ud (openat_raw_flags flags OR mode_value mode) perms
       (sqe_flags_or_0 fl)) s = (Inr u, t)"
    by (auto simp: prep_openat_def numbered_def Let_def bindP_app [of "openat_dirfd dir"]
        dest: openat_dirfd_value split: prod.splits sum.splits)
  from numbered_submits [OF num sub_openat [OF P]] openat_dirfd_value [OF fd] show ?thesis
    by (elim queued_mono) auto
qed

lemma close_reaches:
  assumes P: "pyo3_laws (env_pyo3 E)" and run: "prep_close E f fl s = (Inr u, t)"
  shows "reaches E s (Prep_Close f fl) u t"
proof (cases f)
  case (FdInt i)
  have "numbered (\<lambda>ud. bindP (unwrap_file f)
      (\<lambda>i. ffi_prep_close E i ud (sqe_flags_or_0 fl))) s = (Inr u, t)"
    using run by (simp only: FdInt prep_close_int)
  from numbered_file_submits [OF this sub_close [OF P]] show ?thesis by (elim queued_mono) auto
next
  case (FdObj h)
  have "numbered (\<lambda>ud. bindP (unwrap_file f) (\<lambda>i. bindP (ffi_prep_close E i ud (sqe_flags_or_0 fl))
      (\<lambda>_. mark_closed h))) s = (Inr u, t)"
    using run by (simp only: FdObj prep_close_obj bindP_assoc as_handle.simps)
  moreover have "submits E ud (bindP (ffi_prep_close E i ud (sqe_flags_or_0 fl)) (\<lambda>_. mark_closed h))
      (\<lambda>p fb d. \<exists>f. p = Close f \<and> sint f = i \<and> flags_word E (sqe_flags_or_0 fl) fb)" for ud i
    unfolding mark_closed_def by (rule submits_after [OF sub_close [OF P]]) simp
  ultimately show ?thesis by (rule queued_mono [OF numbered_file_submits]) auto
qed

lemma read_reaches:
  assumes P: "pyo3_laws (env_pyo3 E)" and run: "prep_read E f n off fl s = (Inr u, t)"
  shows "reaches E s (Prep_Read f n off fl) u t"
proof -
  from run have "numbered (\<lambda>ud. bindP (unwrap_file f)
      (\<lambda>i. ffi_prep_read E i n off ud (sqe_flags_or_0 fl))) s = (Inr u, t)"
    by (auto simp: prep_read_def Let_def numbered_after dest: guarded_value)
  from numbered_file_submits [OF this sub_read [OF P]] show ?thesis by (elim queued_mono) auto
qed

lemma write_reaches:
  assumes P: "pyo3_laws (env_pyo3 E)" and run: "prep_write E f buf off n start fl s = (Inr u, t)"
  shows "reaches E s (Prep_Write f buf off n start fl) u t"
proof -
  from run have "numbered (\<lambda>ud. bindP (unwrap_file f) (\<lambda>i. ffi_prep_write E i buf
      (case n of None \<Rightarrow> int (length (buf_bytes buf)) | Some k \<Rightarrow> k)
      (case start of None \<Rightarrow> 0 | Some k \<Rightarrow> k) off ud (sqe_flags_or_0 fl))) s = (Inr u, t)"
    by (auto simp: prep_write_def Let_def numbered_after dest: guarded_value)
  from numbered_file_submits [OF this sub_write [OF P]] show ?thesis
    by (elim queued_mono) (auto simp: chosen_def Let_def int_to_nat_len simp del: length_take)
qed

lemma create_socket_reaches:
  assumes P: "pyo3_laws (env_pyo3 E)" and run: "prep_create_socket E domain kind protocol nb fl s = (Inr u, t)"
  shows "reaches E s (Prep_Create_Socket domain kind protocol nb fl) u t"
proof -
  from run have "numbered (\<lambda>ud. ffi_prep_create_socket E domain
      (if nb then (kind OR SOCK_CLOEXEC) OR SOCK_NONBLOCK else kind OR SOCK_CLOEXEC)
      protocol ud (sqe_flags_or_0 fl)) s = (Inr u, t)"
    unfolding prep_create_socket_def numbered_def Let_def .
  from numbered_submits [OF this sub_create_socket [OF P]] show ?thesis
    by (elim queued_mono) (auto simp: or.assoc split: if_splits)
qed

lemma connect_reaches:
  assumes P: "pyo3_laws (env_pyo3 E)"
  shows "prep_connect_v4 E f v4 port fl s = (Inr u, t) \<Longrightarrow> reaches E s (Prep_Connect_V4 f v4 port fl) u t"
    "prep_connect_v6 E f v6 port fl s = (Inr u, t) \<Longrightarrow> reaches E s (Prep_Connect_V6 f v6 port fl) u t"
proof -
  assume "prep_connect_v4 E f v4 port fl s = (Inr u, t)"
  then have "numbered (\<lambda>ud. bindP (unwrap_file f)
      (\<lambda>i. ffi_prep_connect_v4 E i (py_str_v4 v4) port ud (sqe_flags_or_0 fl))) s = (Inr u, t)"
    by (simp add: prep_connect_v4_def Let_def numbered_after)
  from numbered_file_submits [OF this sub_connect_v4 [OF P]]
  show "reaches E s (Prep_Connect_V4 f v4 port fl) u t" by (elim queued_mono) auto
next
  assume "prep_connect_v6 E f v6 port fl s = (Inr u, t)"
  then have "numbered (\<lambda>ud. bindP (unwrap_file f)
      (\<lambda>i. ffi_prep_connect_v6 E i v6 port ud (sqe_flags_or_0 fl))) s = (Inr u, t)"
    by (simp add: prep_connect_v6_def Let_def numbered_after)
  from numbered_file_submits [OF this sub_connect_v6 [OF P]]
  show "reaches E s (Prep_Connect_V6 f v6 port fl) u t" by (elim queued_mono) auto
qed

lemma recv_reaches:
  assumes P: "pyo3_laws (env_pyo3 E)" and run: "prep_recv E f n flags fl s = (Inr u, t)"
  shows "reaches E s (Prep_Recv f n flags fl) u t"
proof -
  from run have "numbered (\<lambda>ud. bindP (unwrap_file f)
      (\<lambda>i. ffi_prep_recv E i n flags ud (sqe_flags_or_0 fl))) s = (Inr u, t)"
    by (simp add: prep_recv_def Let_def numbered_after)
  from numbered_file_submits [OF this sub_recv [OF P]] show ?thesis by (elim queued_mono) auto
qed

lemma send_reaches:
  assumes P: "pyo3_laws (env_pyo3 E)" and run: "prep_send E f buf n start flags fl s = (Inr u, t)"
  shows "reaches E s (Prep_Send f buf n start flags fl) u t"
proof -
  from run have "numbered (\<lambda>ud. bindP (unwrap_file f) (\<lambda>i. ffi_prep_send E i buf
      (case n of None \<Rightarrow> int (length (buf_bytes buf)) | Some k \<Rightarrow> k)
      (case start of None \<Rightarrow> 0 | Some k \<Rightarrow> k) flags ud (sqe_flags_or_0 fl))) s = (Inr u, t)"
    by (simp add: prep_send_def Let_def numbered_after)
  from numbered_file_submits [OF this sub_send [OF P]] show ?thesis
    by (elim queued_mono) (auto simp: chosen_def Let_def int_to_nat_len simp del: length_take)
qed

lemmas methods_reach = openat_reaches close_reaches read_reaches write_reaches create_socket_reaches
  connect_reaches recv_reaches send_reaches



end
