(* ===== verification/Data_Integrity.thy ===== *)
theory Data_Integrity
  imports Api_Run Api_Spec
begin

text \<open>
  The memory the kernel reads, from the call to the completion: the bytes of a write or a send, the
  path of an \<open>openat\<close> and the address of a connect are copied when the method returns, nothing
  changes the copy while the kernel may read it, and the completion event of a write hands exactly
  that copy back.
\<close>

section \<open>The copy\<close>

fun written :: "request \<Rightarrow> u8 list option" where
  "written (Prep_Write f buf off n start fl) = Some (chosen buf n start)"
| "written (Prep_Send f buf n start flags fl) = Some (chosen buf n start)"
| "written _ = None"

text \<open>What the kernel reads for a request, and as what the ring owns it: the bytes of a write or a
  send, a path with its terminating zero, a socket address.\<close>

fun copied :: "('r, 'w) env \<Rightarrow> request \<Rightarrow> ((block \<Rightarrow> owned_data) \<times> u8 list) option" where
  "copied E (Prep_Write f buf off n start fl) = Some (Buffer, chosen buf n start)"
| "copied E (Prep_Send f buf n start flags fl) = Some (Buffer, chosen buf n start)"
| "copied E (Prep_Openat dir path mode flags perms fl) = Some (OnePath, path @ [0])"
| "copied E (Prep_Connect_V4 f address port fl) = map_option (\<lambda>v4.
     (SockAddr, env_sockaddr E (SockV4 (map of_nat v4) (word_of_int port)))) (ipv4_from_str (py_str_v4 address))"
| "copied E (Prep_Connect_V6 f address port fl) = map_option (\<lambda>v6.
     (SockAddr, env_sockaddr E (SockV6 (map of_nat v6) (word_of_int port)))) (ipv6_from_str address)"
| "copied E _ = None"

lemma written_copied: "written req = Some bs \<Longrightarrow> copied E req = Some (Buffer, bs)"
  by (cases req) simp_all

lemma copied_owned: "copied E req = Some (d, bs) \<Longrightarrow> owned_blocks (d b) = [b]"
  by (cases req) auto

lemma copied_kinds: "copied E req = Some (d, bs) \<Longrightarrow> d = Buffer \<or> (\<forall>b c. d b \<noteq> Buffer c)"
  by (cases req) auto

lemma stores_owned_eq:
  assumes "bs' = bs" "\<And>b. op_writes (op_of (entry b)) = {}" "\<And>b. owned_blocks (d b) = [b]"
  shows "stores E ud (bindP (alloc bs) (\<lambda>b.
    bindP (or_drop b (autosubmit E (entry b))) (\<lambda>_. modP (owned_insert ud (d b))))) d bs'"
  using stores_owned assms by blast

lemmas stores_rules = stores_require stores_refuse stores_lift stores_owned_eq stores_owned_refuse

lemma stores_ioring:
  "stores E ud (ioring_prep_write E fd data sz start off ud fl) Buffer
     (take (unat sz) (drop (unat start) data))"
  "stores E ud (ioring_prep_send E fd data sz start flags ud fl) Buffer
     (take (unat sz) (drop (unat start) data))"
  "stores E ud (ioring_prep_openat E dirfd path ud oflags md fl) OnePath (path @ [0])"
  "stores E ud (do_sockaddr_submit E fd addr ud fl) SockAddr (env_sockaddr E addr)"
  unfolding ioring_prep_write_def ioring_prep_send_def ioring_prep_openat_def do_sockaddr_submit_def
    add_owned_buffer_def add_owned_path_def add_owned_sockaddr_def Let_def
  by (intro stores_rules; auto dest: checked_slice)+

lemma stores_ffi:
  assumes P: "pyo3_laws (env_pyo3 E)"
  shows "stores E ud (ffi_prep_write E fd buf n start off ud fl) Buffer
      (take (nat n) (drop (nat start) (buf_bytes buf)))"
    "stores E ud (ffi_prep_send E fd buf n start flags ud fl) Buffer
      (take (nat n) (drop (nat start) (buf_bytes buf)))"
    "stores E ud (ffi_prep_openat E dirfd path ud oflags perms fl) OnePath (path @ [0])"
    "ipv4_from_str ip = Some v4 \<Longrightarrow> stores E ud (ffi_prep_connect_v4 E fd ip port ud fl) SockAddr
      (env_sockaddr E (SockV4 (map of_nat v4) (word_of_int port)))"
    "ipv6_from_str ip = Some v6 \<Longrightarrow> stores E ud (ffi_prep_connect_v6 E fd ip port ud fl) SockAddr
      (env_sockaddr E (SockV6 (map of_nat v6) (word_of_int port)))"
  unfolding ffi_prep_write_def ffi_prep_send_def ffi_prep_openat_def ffi_prep_connect_v4_def
    ffi_prep_connect_v6_def ioring_prep_connect_v4_def ioring_prep_connect_v6_def
  by (intro stores_lift stores_require;
      auto dest!: pyo3_value [OF P] simp: parse_or_raise_def intro: stores_ioring)+

lemma stores_chunk:
  assumes P: "pyo3_laws (env_pyo3 E)"
  shows "stores E ud (ffi_prep_write E fd buf (case n of None \<Rightarrow> int (length (buf_bytes buf)) | Some k \<Rightarrow> k)
      (case start of None \<Rightarrow> 0 | Some k \<Rightarrow> k) off ud fl) Buffer (chosen buf n start)"
    "stores E ud (ffi_prep_send E fd buf (case n of None \<Rightarrow> int (length (buf_bytes buf)) | Some k \<Rightarrow> k)
      (case start of None \<Rightarrow> 0 | Some k \<Rightarrow> k) flags ud fl) Buffer (chosen buf n start)"
  using stores_ffi(1,2) [OF P, of ud fd buf "case n of None \<Rightarrow> int (length (buf_bytes buf)) | Some k \<Rightarrow> k"
      "case start of None \<Rightarrow> 0 | Some k \<Rightarrow> k"]
  by (simp_all add: chosen_def Let_def int_to_nat_len)

text \<open>The copy is in the table, intact.\<close>

definition keeps_copy ::
  "('r \<Rightarrow> sqe multiset) \<Rightarrow> u64 \<Rightarrow> (block \<Rightarrow> owned_data) \<Rightarrow> u8 list \<Rightarrow> ('r, 'z) st_scheme \<Rightarrow> bool" where
  "keeps_copy live u d bs s \<longleftrightarrow>
     (\<exists>b. owned_data (ring s) u = Some (d b) \<and> heap s b = Some bs \<and> quiet live b s)"

lemma numbered_stores:
  assumes run: "numbered op s = (Inr u, t)" and st: "\<And>ud. stores E ud (op ud) d bs"
    and laws: "uring_laws (env_ring E) live" and inv: "ring_inv live s"
    and small: "user_data_counter (ring s) < 2 ^ 63"
  shows "keeps_copy live u d bs t"
proof -
  let ?u = "user_data_counter (ring s)" and ?s1 = "snd (get_next_user_data s)"
  have nx: "get_next_user_data s = (Inr ?u, ?s1)" by (simp add: get_next_user_data_def)
  from run have u: "u = ?u" and "op u ?s1 = (Inr (), t)"
    by (auto simp: numbered_def bindP_def get_next_user_data_def split: prod.splits sum.splits)
  with st [of u] laws ring_inv_get_next_user_data [OF inv small nx]
  show ?thesis unfolding stores_def keeps_copy_def u by blast
qed

lemma stores_reads: "reads m \<Longrightarrow> (\<And>x. stores E ud (f x) d bs) \<Longrightarrow> stores E ud (bindP m f) d bs"
  by (simp add: stores_def bindP_reads split: sum.split)

lemma perform_stores:
  assumes P: "pyo3_laws (env_pyo3 E)" and ok: "uring_laws (env_ring E) live" "ring_inv live s"
      "user_data_counter (ring s) < 2 ^ 63"
    and run: "perform E req s = (Inr u, t)" and cp: "copied E req = Some (d, bs)"
  shows "keeps_copy live u d bs t"
proof (cases req)
  case (Prep_Openat dir path mode flags perms fl)
  with run obtain i where num: "numbered (\<lambda>ud. ffi_prep_openat E i path ud
      (openat_raw_flags flags OR mode_value mode) perms (sqe_flags_or_0 fl)) s = (Inr u, t)"
    by (auto simp: prep_openat_def numbered_def Let_def bindP_app [of "openat_dirfd dir"]
        dest: openat_dirfd_value split: prod.splits sum.splits)
  show ?thesis
    by (rule numbered_stores [OF num _ ok]) (use Prep_Openat cp stores_ffi(3) [OF P] in auto)
next
  case (Prep_Write f buf off n start fl)
  with run have num: "numbered (\<lambda>ud. bindP (unwrap_file f) (\<lambda>i. ffi_prep_write E i buf
      (case n of None \<Rightarrow> int (length (buf_bytes buf)) | Some k \<Rightarrow> k)
      (case start of None \<Rightarrow> 0 | Some k \<Rightarrow> k) off ud (sqe_flags_or_0 fl))) s = (Inr u, t)"
    by (auto simp: prep_write_def Let_def numbered_after dest: guarded_value)
  show ?thesis
    by (rule numbered_stores [OF num stores_reads [OF reads_unwrap_file] ok])
      (use Prep_Write cp stores_chunk(1) [OF P] in auto)
next
  case (Prep_Send f buf n start flags fl)
  with run have num: "numbered (\<lambda>ud. bindP (unwrap_file f) (\<lambda>i. ffi_prep_send E i buf
      (case n of None \<Rightarrow> int (length (buf_bytes buf)) | Some k \<Rightarrow> k)
      (case start of None \<Rightarrow> 0 | Some k \<Rightarrow> k) flags ud (sqe_flags_or_0 fl))) s = (Inr u, t)"
    by (simp add: prep_send_def Let_def numbered_after)
  show ?thesis
    by (rule numbered_stores [OF num stores_reads [OF reads_unwrap_file] ok])
      (use Prep_Send cp stores_chunk(2) [OF P] in auto)
next
  case (Prep_Connect_V4 f address port fl)
  with run have num: "numbered (\<lambda>ud. bindP (unwrap_file f) (\<lambda>i. ffi_prep_connect_v4 E i
      (py_str_v4 address) port ud (sqe_flags_or_0 fl))) s = (Inr u, t)"
    by (simp add: prep_connect_v4_def Let_def numbered_after)
  show ?thesis
    by (rule numbered_stores [OF num stores_reads [OF reads_unwrap_file] ok])
      (use Prep_Connect_V4 cp stores_ffi(4) [OF P] in auto)
next
  case (Prep_Connect_V6 f address port fl)
  with run have num: "numbered (\<lambda>ud. bindP (unwrap_file f) (\<lambda>i. ffi_prep_connect_v6 E i
      address port ud (sqe_flags_or_0 fl))) s = (Inr u, t)"
    by (simp add: prep_connect_v6_def Let_def numbered_after)
  show ?thesis
    by (rule numbered_stores [OF num stores_reads [OF reads_unwrap_file] ok])
      (use Prep_Connect_V6 cp stores_ffi(5) [OF P] in auto)
qed (use cp in simp_all)

section \<open>Calls that leave quiet blocks alone\<close>

abbreviation calm :: "('r \<Rightarrow> sqe multiset) \<Rightarrow> block \<Rightarrow> ('r, 'z) st_scheme \<Rightarrow> ('r, 'z) st_scheme \<Rightarrow> bool" where
  "calm live b s t \<equiv> quiet live b s \<longrightarrow> quiet live b t \<and> heap t b = heap s b"

lemma calm_refl_trans: "reflp (calm live b)" "transp (calm live b)"
  by (auto simp: reflp_def transp_def)

lemma calm_entered:
  assumes "enter_law live r (heap s) r' m'" "the_io_uring (ring s) = Some r"
  shows "calm live b s (entered r' m' s)"
  using assms enter_keeps [OF assms(1)] writes_of_enter [OF assms(1)]
  by (auto simp: quiet_def owned_somewhere_def)

lemma calm_basic:
  assumes laws: "uring_laws (env_ring E) live"
  shows "keeps (calm live b) (submit E)" "keeps (calm live b) (wait_cqes E n)"
    "keeps (calm live b) (push_timeout E (timeout_sqe E sec nsec))"
    "keeps (calm live b) (register_eventfd E fd)" "keeps (calm live b) close_ring"
proof -
  show "keeps (calm live b) (submit E)"
  proof (rule keepsI)
    fix s show "calm live b s (snd (submit E s))"
      by (cases "the_io_uring (ring s)")
        (auto simp: submit_def simp flip: entered_def split: prod.split
          dest!: uring_lawsD(3) [OF laws] calm_entered [of live _ s _ _ b])
  qed
  show "keeps (calm live b) (wait_cqes E n)"
  proof (rule keepsI)
    fix s show "calm live b s (snd (wait_cqes E n s))"
      by (cases "the_io_uring (ring s)")
        (auto simp: wait_cqes_def simp flip: entered_def split: prod.split
          dest!: uring_lawsD(4) [OF laws] calm_entered [of live _ s _ _ b])
  qed
  show "keeps (calm live b) (push_timeout E (timeout_sqe E sec nsec))"
    by (auto simp: keeps_def push_timeout_def quiet_def owned_somewhere_def timeout_sqe_def
        writes_of_add dest!: uring_lawsD(2) [OF laws] split: option.split)
  show "keeps (calm live b) (register_eventfd E fd)"
    by (auto simp: keeps_def register_eventfd_def quiet_def owned_somewhere_def
        dest!: uring_lawsD(7) [OF laws] split: option.split prod.split)
  show "keeps (calm live b) close_ring"
    by (auto simp: keeps_def close_ring_def quiet_def owned_somewhere_def writes_of_def)
qed

lemma quiet_same_ring: "same_ring t s \<Longrightarrow> calm live b s t"
  using ring_live_ring [of t s live]
  by (simp add: same_ring_def quiet_def owned_somewhere_def)

lemma calm_eventfd: "keeps (calm live b) (os_eventfd_call E i fl)"
  using quiet_same_ring [OF eventfd_call_same] by (intro keepsI)

lemma calm_calls:
  assumes "uring_laws (env_ring E) live"
  shows "keeps (calm live b) (io_submit E)" "keeps (calm live b) (submit_and_wait E n)"
    "keeps (calm live b) (submit_and_wait_with_timeout E sec nsec)"
    "keeps (calm live b) (io_register_eventfd E f)"
  unfolding io_submit_def submit_and_wait_def submit_and_wait_with_timeout_def
    io_register_eventfd_def wait_with_timeout_def
  by (intro keeps_intros calm_basic assms calm_eventfd calm_refl_trans;
      cases f; simp add: calm_eventfd keeps_intros calm_refl_trans)+

section \<open>Reaping hands the copy over\<close>

lemma reap_entry_content:
  assumes "ev_buffer (fst (reap_entry c s)) = Some buf"
  shows "\<exists>b bs. owned_data (ring s) (cqe_user_data c) = Some (Buffer b) \<and> heap s b = Some bs \<and>
    buf = finish_buffer (cqe_result c) bs"
  using assms by (auto simp: reap_entry_def Let_def split: option.splits owned_data.splits)

lemma heap_reap_other:
  assumes "mem_ok s" "owned_data (ring s) u = Some d" "b \<in> set (owned_blocks d)" "cqe_user_data c \<noteq> u"
  shows "heap (snd (reap_entry c s)) b = heap s b"
  using assms mem_ok_disjoint [OF assms(1) _ assms(2), of "cqe_user_data c"]
  by (auto simp: heap_reap_entry restrict_map_def split: option.split)

lemma reap_entries_content:
  assumes "mem_ok s" "ev \<in> set (fst (reap_entries cs s))" "ev_buffer ev = Some buf"
  shows "\<exists>b bs. owned_data (ring s) (ev_user_data ev) = Some (Buffer b) \<and> heap s b = Some bs \<and>
    buf = finish_buffer (ev_result ev) bs"
  using assms
proof (induction cs arbitrary: s)
  case Nil
  then show ?case by simp
next
  case (Cons c cs)
  let ?s1 = "snd (reap_entry c s)"
  from Cons.prems(2) consider "ev = fst (reap_entry c s)" | "ev \<in> set (fst (reap_entries cs ?s1))"
    unfolding reap_entries_Cons by auto
  then show ?case
  proof cases
    case 1
    with Cons.prems(3) reap_entry_content [of c s buf] show ?thesis by (simp add: reap_entry_fields)
  next
    case 2
    from Cons.IH [OF mem_ok_reap_entry [OF Cons.prems(1)] 2 Cons.prems(3)] obtain b bs where
      own: "owned_data (ring ?s1) (ev_user_data ev) = Some (Buffer b)" and hp: "heap ?s1 b = Some bs"
      and buf: "buf = finish_buffer (ev_result ev) bs" by blast
    from own have "owned_data (ring s) (ev_user_data ev) = Some (Buffer b)"
      "cqe_user_data c \<noteq> ev_user_data ev" by (auto simp: reap_entry_fields split: if_splits)
    moreover from this heap_reap_other [OF Cons.prems(1) this(1) _ this(2), of b] hp
    have "heap s b = Some bs" by simp
    ultimately show ?thesis using buf by blast
  qed
qed

lemma reap_entries_quiet:
  assumes "mem_ok s" "owned_data (ring s) u = Some d" "b \<in> set (owned_blocks d)"
    and "u \<notin> cqe_user_data ` set cs"
  shows "heap (snd (reap_entries cs s)) b = heap s b"
  using assms
proof (induction cs arbitrary: s)
  case Nil
  then show ?case by simp
next
  case (Cons c cs)
  let ?s1 = "snd (reap_entry c s)"
  have ne: "cqe_user_data c \<noteq> u" using Cons.prems(4) by auto
  have "owned_data (ring ?s1) u = Some d" using Cons.prems(2) ne by (simp add: reap_entry_fields)
  from Cons.IH [OF mem_ok_reap_entry [OF Cons.prems(1)] this Cons.prems(3)] Cons.prems(4)
    heap_reap_other [OF Cons.prems(1-3) ne]
  show ?case unfolding reap_entries_Cons by simp
qed

section \<open>One step\<close>

text \<open>The state of a copy: still owned and intact, or reaped.\<close>

definition holds_copy ::
  "('r \<Rightarrow> sqe multiset) \<Rightarrow> u64 \<Rightarrow> (block \<Rightarrow> owned_data) \<Rightarrow> u8 list \<Rightarrow> ('r, 'z) st_scheme \<Rightarrow> bool" where
  "holds_copy live u k bs s \<longleftrightarrow> owned_data (ring s) u = None \<or> keeps_copy live u k bs s"

lemma holds_copy_calm:
  assumes "holds_copy live u k bs s" "owned_data (ring t) u = owned_data (ring s) u"
    and "\<And>b. calm live b s t"
  shows "holds_copy live u k bs t"
  using assms unfolding holds_copy_def keeps_copy_def by metis

lemma holds_copy_keeps:
  assumes "keeps same_table m" "\<And>b. keeps (calm live b) m" "holds_copy live u k bs s" "m s = (x, t)"
  shows "holds_copy live u k bs t"
proof (rule holds_copy_calm [OF assms(3)])
  show "owned_data (ring t) u = owned_data (ring s) u"
    using keepsD [OF assms(1), of s] assms(4) by simp
  show "calm live b s t" for b
    using keepsD [OF assms(2), of b s] assms(4) by simp
qed

lemma holds_copy_same_ring:
  fixes s t :: "('r, 'z) st_scheme"
  assumes "same_ring t s" "holds_copy live u k bs s"
  shows "holds_copy live u k bs t"
proof (rule holds_copy_calm [OF assms(2)])
  show "owned_data (ring t) u = owned_data (ring s) u" using assms(1) by (simp add: same_ring_def)
  show "calm live b s t" for b using assms(1) by (rule quiet_same_ring)
qed

lemma reaped_copy_kept:
  assumes ok: "mem_ok s" and own: "\<And>b. owned_blocks (k b) = [b]" and copy: "holds_copy live u k bs s"
  shows "holds_copy live u k bs (snd (reap_entries es s))" (is "holds_copy _ _ _ _ ?t")
proof (cases "owned_data (ring ?t) u")
  case None
  then show ?thesis by (simp add: holds_copy_def)
next
  case (Some d)
  then have kept: "u \<notin> cqe_user_data ` set es" "owned_data (ring s) u = Some d"
    by (auto simp: reap_entries_fields restrict_map_def split: if_splits)
  with copy obtain b where b: "d = k b" "heap s b = Some bs" "quiet live b s"
    by (auto simp: holds_copy_def keeps_copy_def)
  have "heap ?t b = Some bs"
    using reap_entries_quiet [OF ok kept(2) _ kept(1), of b] b own by simp
  moreover have "owned_somewhere ?t b"
    using Some b(1) own unfolding owned_somewhere_def by force
  then have "quiet live b ?t"
    using b(3) ring_live_ring [of ?t s live] by (simp add: quiet_def reap_entries_fields)
  ultimately show ?thesis using Some b(1) unfolding holds_copy_def keeps_copy_def by blast
qed

lemma reaped_copy_content:
  assumes ok: "mem_ok s" and own: "\<And>b. owned_blocks (k b) = [b]" and copy: "holds_copy live u k bs s"
    and ev: "ev \<in> set (fst (reap_entries es s))" "ev_user_data ev = u" "ev_buffer ev = Some buf"
  shows "(\<exists>b c. k b = Buffer c) \<and> buf = finish_buffer (ev_result ev) bs"
proof -
  from reap_entries_content [OF ok ev(1,3)] ev(2) obtain c cs where
    c: "owned_data (ring s) u = Some (Buffer c)" "heap s c = Some cs" "buf = finish_buffer (ev_result ev) cs"
    by blast
  with copy obtain b where b: "k b = Buffer c" "heap s b = Some bs"
    by (auto simp: holds_copy_def keeps_copy_def)
  with own [of b] have "b = c" by simp
  with b c show ?thesis by auto
qed

text \<open>What goes for the entries goes for the call: entering the kernel leaves the copy alone.\<close>

lemma reap_copy:
  assumes laws: "uring_laws (env_ring E) live" and inv: "ring_inv live s"
    and own: "\<And>b. owned_blocks (k b) = [b]"
    and copy: "holds_copy live u k bs s" and run: "get_completion_entries E s = Some (x, t)"
  shows "holds_copy live u k bs t"
    and "x = Inr evs \<Longrightarrow> ev \<in> set evs \<Longrightarrow> ev_user_data ev = u \<Longrightarrow> ev_buffer ev = Some buf \<Longrightarrow>
      (\<exists>b c. k b = Buffer c) \<and> buf = finish_buffer (ev_result ev) bs"
proof -
  have "holds_copy live u k bs t \<and> (\<forall>evs ev buf. x = Inr evs \<longrightarrow> ev \<in> set evs \<longrightarrow> ev_user_data ev = u \<longrightarrow>
      ev_buffer ev = Some buf \<longrightarrow> (\<exists>b c. k b = Buffer c) \<and> buf = finish_buffer (ev_result ev) bs)"
    using run
  proof (cases rule: get_completion_entriesE)
    case closed
    with copy show ?thesis by simp
  next
    case (reaped r es r' m')
    let ?s1 = "entered r' m' s"
    from drain_spec [OF laws reaped(2)] have enter: "enter_law live r (heap s) r' m'" by auto
    have ok: "mem_ok ?s1"
      using ring_inv_entered [OF inv reaped(1) enter] by (simp add: ring_inv_def)
    have copy1: "holds_copy live u k bs ?s1"
      by (rule holds_copy_calm [OF copy _ calm_entered [OF enter reaped(1)]]) simp
    show ?thesis
      unfolding reaped(3,4)
      using reaped_copy_kept [OF ok own copy1] reaped_copy_content [OF ok own copy1] by blast
  qed
  then show "holds_copy live u k bs t"
    and "x = Inr evs \<Longrightarrow> ev \<in> set evs \<Longrightarrow> ev_user_data ev = u \<Longrightarrow> ev_buffer ev = Some buf \<Longrightarrow>
      (\<exists>b c. k b = Buffer c) \<and> buf = finish_buffer (ev_result ev) bs"
    by blast+
qed

lemma request_copy:
  assumes laws: "uring_laws (env_ring E) live" and inv: "ring_inv live s"
    and small: "user_data_counter (ring s) < 2 ^ 63" and copy: "holds_copy live u k bs s"
    and other: "u \<noteq> user_data_counter (ring s)" and run: "perform E req s = (x, t)"
  shows "holds_copy live u k bs t"
proof (rule holds_copy_calm [OF copy])
  show "owned_data (ring t) u = owned_data (ring s) u"
    using api.meth_others [OF other, of E req] run by simp
  show "calm live b s t" for b
    using api.meth_calm [OF laws inv small, of b req] run by simp
qed

lemma step_copy:
  assumes laws: "uring_laws (env_ring E) live" and own: "\<And>b. owned_blocks (k b) = [b]"
  shows "api_step E s l t \<Longrightarrow> ring_inv live s \<Longrightarrow> user_data_counter (ring s) < 2 ^ 63 \<Longrightarrow>
    holds_copy live u k bs s \<Longrightarrow> u \<noteq> user_data_counter (ring s) \<Longrightarrow> holds_copy live u k bs t"
proof (induction rule: api_step.induct)
  case (step_request req s x t)
  then show ?case using request_copy [OF laws] by blast
next
  case (step_reap s x t)
  then show ?case using reap_copy(1) [OF laws _ own] by blast
next
  case (step_handle t v h s)
  show ?case
    unfolding step_handle(1) by (rule holds_copy_same_ring [OF same_ring_handle step_handle(4)])
next
  case (step_event ev s x t)
  have "snd (from_completion_event ev s) = t" by (simp add: step_event(1))
  with holds_copy_same_ring [OF same_ring_event [of ev s] step_event(4)] show ?case by simp
next
  case (step_elsewhere s t)
  then have "same_ring t s" by (simp add: same_ring_def)
  then show ?case by (rule holds_copy_same_ring) (rule step_elsewhere)
next
  case (step_submit s x t)
  show ?case
    by (rule holds_copy_keeps [OF keeps_table_calls(1) calm_calls(1) [OF laws] step_submit(4,1)])
next
  case (step_wait n s x t)
  show ?case
    by (rule holds_copy_keeps [OF keeps_table_calls(2) calm_calls(2) [OF laws] step_wait(4,1)])
next
  case (step_wait_timeout sec nsec s x t)
  show ?case
    by (rule holds_copy_keeps [OF keeps_table_calls(3) calm_calls(3) [OF laws] step_wait_timeout(4,1)])
next
  case (step_eventfd f s x t)
  show ?case
    by (rule holds_copy_keeps [OF keeps_table_calls(4) calm_calls(4) [OF laws] step_eventfd(4,1)])
next
  case (step_close s x t)
  show ?case
    by (rule holds_copy_keeps [OF keeps_table_basic(5) calm_basic(5) [OF laws] step_close(4,1)])
qed

section \<open>A whole history\<close>

lemma events_stepD: "api_step E s (c, Events x) t \<Longrightarrow> get_completion_entries E s = Some (x, t)"
  by (auto elim: api_step.cases)

lemma value_stepD: "api_step E s (Request req, Value x) t \<Longrightarrow> perform E req s = (x, t)"
  by (auto elim: api_step.cases)

lemma issued_mem: "(c, Value (Inr u)) \<in> set ls \<Longrightarrow> u \<in> set (issued ls)"
  unfolding issued_def by force

lemma delivered_mem:
  "(c, Events (Inr evs)) \<in> set ls \<Longrightarrow> ev \<in> set evs \<Longrightarrow> ev_buffer ev = Some buf \<Longrightarrow>
     ev_user_data ev \<in> set (delivered ls)"
  unfolding delivered_def by (force simp: buffers_of_def)

text \<open>Every event of a history with the buffer of submission \<open>u\<close> carries \<open>bs\<close>, as finished.\<close>

definition events_carry ::
  "(call \<times> outcome) list \<Rightarrow> u64 \<Rightarrow> (block \<Rightarrow> owned_data) \<Rightarrow> u8 list \<Rightarrow> bool" where
  "events_carry ls u k bs \<longleftrightarrow> (\<forall>c evs ev buf. (c, Events (Inr evs)) \<in> set ls \<longrightarrow> ev \<in> set evs \<longrightarrow>
     ev_user_data ev = u \<longrightarrow> ev_buffer ev = Some buf \<longrightarrow> (\<exists>b c. k b = Buffer c) \<and> buf = finish_buffer (ev_result ev) bs)"

lemma events_carry_snoc:
  assumes "events_carry ls u k bs"
    and "\<And>c evs ev buf. l = (c, Events (Inr evs)) \<Longrightarrow> ev \<in> set evs \<Longrightarrow> ev_user_data ev = u \<Longrightarrow>
      ev_buffer ev = Some buf \<Longrightarrow> (\<exists>b c. k b = Buffer c) \<and> buf = finish_buffer (ev_result ev) bs"
  shows "events_carry (ls @ [l]) u k bs"
  using assms unfolding events_carry_def by fastforce

lemma run_copies:
  assumes P: "pyo3_laws (env_pyo3 E)" and laws: "uring_laws (env_ring E) live"
    and cp: "copied E req = Some (k, bs)"
  shows "api_run E s ls t \<Longrightarrow> user_data_counter (ring s) = 0 \<Longrightarrow> owned_data (ring s) = Map.empty \<Longrightarrow>
    ring_inv live s \<Longrightarrow> length ls \<le> 2 ^ 63 \<Longrightarrow> (Request req, Value (Inr u)) \<in> set ls \<Longrightarrow>
    holds_copy live u k bs t \<and> events_carry ls u k bs"
proof (induction rule: api_run.induct)
  case (run_nil s)
  then show ?case by simp
next
  case (run_snoc s ls t l t')
  have n: "length ls < 2 ^ 63" using run_snoc.prems(4) by simp
  note facts = run_facts [OF run_snoc.hyps(1) run_snoc.prems(1,2) less_imp_le [OF n]]
  have inv: "ring_inv live t"
    using run_inv [OF laws run_snoc.hyps(1) run_snoc.prems(1-3)] n by simp
  have "unat (user_data_counter (ring t)) < 2 ^ 63" using facts n by linarith
  then have small: "user_data_counter (ring t) < 2 ^ 63" by (simp add: word_less_nat_alt)
  show ?case
  proof (cases "(Request req, Value (Inr u)) \<in> set ls")
    case True
    note IH = run_snoc.IH [OF run_snoc.prems(1-3) less_imp_le [OF n] True]
    have "u \<noteq> user_data_counter (ring t)" using issued_mem [OF True] facts by auto
    with step_copy [OF laws copied_owned [OF cp] run_snoc.hyps(2) inv small] IH have "holds_copy live u k bs t'" by blast
    moreover have "events_carry (ls @ [l]) u k bs"
    proof (rule events_carry_snoc)
      show "events_carry ls u k bs" using IH by blast
      fix c evs ev buf assume l: "l = (c, Events (Inr evs))" and ev: "ev \<in> set evs"
        "ev_user_data ev = u" "ev_buffer ev = Some buf"
      have "get_completion_entries E t = Some (Inr evs, t')"
        using run_snoc.hyps(2) unfolding l by (rule events_stepD)
      from reap_copy(2) [OF laws inv copied_owned [OF cp] conjunct1 [OF IH] this refl ev]
      show "(\<exists>b c. k b = Buffer c) \<and> buf = finish_buffer (ev_result ev) bs" .
    qed
    ultimately show ?thesis by blast
  next
    case False
    then have l: "l = (Request req, Value (Inr u))" using run_snoc.prems(5) by simp
    have run: "perform E req t = (Inr u, t')"
      using run_snoc.hyps(2) unfolding l by (rule value_stepD)
    have "holds_copy live u k bs t'"
      using perform_stores [OF P laws inv small run cp] by (simp add: holds_copy_def)
    moreover have "u = user_data_counter (ring t)" using api.meth_value [OF run] by simp
    then have "u \<notin> set (issued ls)" using facts by blast
    then have "u \<notin> set (delivered ls)" using facts by blast
    then have "events_carry ls u k bs"
      using delivered_mem unfolding events_carry_def by blast
    then have "events_carry (ls @ [l]) u k bs" by (rule events_carry_snoc) (simp add: l)
    ultimately show ?thesis by blast
  qed
qed

text \<open>What finishing makes of a copy nobody wrote to.\<close>

lemma finish_written:
  "(sint r < 0 \<longrightarrow> finish_buffer r bs = bs) \<and>
   (0 \<le> sint r \<and> sint r \<le> int (length bs) \<longrightarrow> finish_buffer r bs = take (nat (sint r)) bs)"
  by (auto simp: finish_buffer_def vec_resize_def)

section \<open>Property\<close>

text \<open>C2: what the kernel reads is what the caller gave, from the call to the completion. In every
  history of a new ring, whatever else it submits, reaps, closes or has fail: while the operation of
  a write, a send, an \<open>openat\<close> or a connect is live, the memory its entry points to holds exactly the
  bytes chosen, the path with its terminating zero, or the socket address; until it is reaped the
  ring owns that block, which no read of the kernel can write to; and only the event of a write or
  a send has a buffer, which is those bytes, cut to the number written when it succeeded and
  whole when it failed.\<close>

theorem written_data_intact:
  assumes "pyo3_laws (env_pyo3 E)" "uring_laws (env_ring E) live"
    and "create_io_ring E n cq idle single auto = Inr (ring s)" "\<forall>b \<in> dom (heap s). b < brk s"
    and "api_run E s ls t" "length ls \<le> 2 ^ 63"
    and "(Request req, Value (Inr u)) \<in> set ls" "copied E req = Some (k, bs)"
  shows "(\<forall>e \<in># ring_live live t. sqe_user_data e = u \<longrightarrow> (\<forall>b \<in> sqe_blocks e. heap t b = Some bs)) \<and>
         (\<forall>d. owned_data (ring t) u = Some d \<longrightarrow> (\<exists>b. d = k b \<and> heap t b = Some bs \<and>
            b \<notin> writes_of (ring_live live t))) \<and>
         (\<forall>c evs ev buf. (c, Events (Inr evs)) \<in> set ls \<longrightarrow> ev \<in> set evs \<longrightarrow> ev_user_data ev = u \<longrightarrow>
            ev_buffer ev = Some buf \<longrightarrow> k = Buffer \<and>
            (sint (ev_result ev) < 0 \<longrightarrow> buf = bs) \<and>
            (0 \<le> sint (ev_result ev) \<and> sint (ev_result ev) \<le> int (length bs) \<longrightarrow>
               buf = take (nat (sint (ev_result ev))) bs))"
proof -
  note own = copied_owned [OF assms(8)] and kinds = copied_kinds [OF assms(8)]
  have new: "ring_inv live s" using ring_inv_create [OF assms(2,3,4)] by simp
  have both: "holds_copy live u k bs t" "events_carry ls u k bs"
    using run_copies [OF assms(1,2,8,5) create_fields [OF assms(3)] new assms(6,7)] by simp_all
  have "ring_inv live t" using run_inv [OF assms(2,5) create_fields [OF assms(3)] new assms(6)] .
  with both(1) own have "\<forall>e \<in># ring_live live t. sqe_user_data e = u \<longrightarrow>
      (\<forall>b \<in> sqe_blocks e. heap t b = Some bs)"
    by (fastforce simp: ring_inv_def covered_def holds_copy_def keeps_copy_def)
  moreover have "\<forall>d. owned_data (ring t) u = Some d \<longrightarrow> (\<exists>b. d = k b \<and> heap t b = Some bs \<and>
      b \<notin> writes_of (ring_live live t))"
    using both(1) by (auto simp: holds_copy_def keeps_copy_def quiet_def)
  moreover have "k = Buffer \<and> (sint (ev_result ev) < 0 \<longrightarrow> buf = bs) \<and>
      (0 \<le> sint (ev_result ev) \<and> sint (ev_result ev) \<le> int (length bs) \<longrightarrow>
         buf = take (nat (sint (ev_result ev))) bs)"
    if "(c, Events (Inr evs)) \<in> set ls" "ev \<in> set evs" "ev_user_data ev = u" "ev_buffer ev = Some buf"
    for c evs ev buf
  proof -
    from both(2) that have "\<exists>b c. k b = Buffer c" "buf = finish_buffer (ev_result ev) bs"
      unfolding events_carry_def by blast+
    with kinds finish_written show ?thesis by blast
  qed
  ultimately show ?thesis by blast
qed

lemma sample_run_write:
  "\<exists>ls t. api_run sample_env sample_state ls t \<and> length ls = 5 \<and>
     ls ! 1 = (Request (Prep_Write (FdInt 3) (Bytes [1, 2]) (-1) None None None), Value (Inr 1)) \<and>
     ls ! 3 = (Get_Completion_Entries, Events (Inr
       [\<lparr>ev_user_data = 0, ev_result = 3, ev_buffer = Some [42, 42, 42]\<rparr>,
        \<lparr>ev_user_data = 1, ev_result = 2, ev_buffer = Some [1, 2]\<rparr>]))"
proof -
  have "case exec_calls sample_env sample_calls ([], sample_state) of None \<Rightarrow> False
    | Some (ls, t) \<Rightarrow> length ls = 5 \<and>
     ls ! 1 = (Request (Prep_Write (FdInt 3) (Bytes [1, 2]) (-1) None None None), Value (Inr 1)) \<and>
     ls ! 3 = (Get_Completion_Entries, Events (Inr
       [\<lparr>ev_user_data = 0, ev_result = 3, ev_buffer = Some [42, 42, 42]\<rparr>,
        \<lparr>ev_user_data = 1, ev_result = 2, ev_buffer = Some [1, 2]\<rparr>]))"
    by code_simp
  then show ?thesis
    using exec_calls_run [OF run_nil, of sample_env sample_calls sample_state]
    by (auto split: option.splits)
qed

theorem written_data_intact_witness:
  "\<exists>ls t evs ev. api_run sample_env sample_state ls t \<and>
     (Request (Prep_Write (FdInt 3) (Bytes [1, 2]) (-1) None None None), Value (Inr 1)) \<in> set ls \<and>
     (Get_Completion_Entries, Events (Inr evs)) \<in> set ls \<and> ev \<in> set evs \<and> ev_user_data ev = 1 \<and>
     sint (ev_result ev) = 2 \<and> ev_buffer ev = Some (take 2 [1, 2])"
proof -
  let ?req = "Prep_Write (FdInt 3) (Bytes [1, 2]) (-1) None None None"
  let ?evs = "[\<lparr>ev_user_data = 0, ev_result = 3, ev_buffer = Some [42, 42, 42]\<rparr>,
      \<lparr>ev_user_data = 1, ev_result = 2, ev_buffer = Some [1, 2]\<rparr>]"
  obtain ls t where run: "api_run sample_env sample_state ls t" "length ls = 5"
    "ls ! 1 = (Request ?req, Value (Inr 1))" "ls ! 3 = (Get_Completion_Entries, Events (Inr ?evs))"
    using sample_run_write by blast
  have mem: "(Request ?req, Value (Inr 1)) \<in> set ls" "(Get_Completion_Entries, Events (Inr ?evs)) \<in> set ls"
    using run(2-4) nth_mem [of 1 ls] nth_mem [of 3 ls] by simp_all
  have len: "length ls \<le> 2 ^ 63" using run(2) by simp
  have w: "copied sample_env ?req = Some (Buffer, [1, 2])" by (simp add: chosen_def)
  note intact = written_data_intact [OF sample_env_laws(2,3) sample_state_created sample_heap run(1) len mem(1) w,
      THEN conjunct2, THEN conjunct2, rule_format, OF mem(2), of "?evs ! 1" "[1, 2]"]
  show ?thesis
    using run(1) mem intact
    by (intro exI [of _ ls] exI [of _ t] exI [of _ ?evs] exI [of _ "?evs ! 1"]) simp
qed

end
