(* ===== verification/Manager_Data.thy ===== *)
theory Manager_Data
  imports Manager_Sample Data_Integrity
begin

text \<open>
  The whole path of the bytes of a write, from \<open>prep_write\<close> in one task through the kernel, the
  dispatcher and a stream to \<open>wait_for_completion\<close> in another.
\<close>

lemma in_fetched: "ev \<in> set (fetched ls) \<longleftrightarrow> (\<exists>evs. Round (Inr evs) \<in> set ls \<and> ev \<in> set evs)"
proof -
  have "ev \<in> set (fetched_by l) \<longleftrightarrow> (\<exists>evs. l = Round (Inr evs) \<and> ev \<in> set evs)" for l
    by (cases l rule: fetched_by.cases) auto
  then show ?thesis by (auto simp: fetched_def)
qed

text \<open>A task submits a write of two bytes and waits for it.\<close>

abbreviation sample_write :: request where
  "sample_write \<equiv> Prep_Write (FdInt 3) (Bytes [1, 2]) (-1) None None None"

lemma written_run:
  "\<exists>ls t w h ev. aio_run sample_env sample_streams sample_aio ls t \<and> length ls = 5 \<and>
     Ring_Call (Request sample_write) (Value (Inr 0)) \<in> set ls \<and> tasks t 0 = Some w \<and>
     wt_user_data w = 0 \<and> wt_state w = Returned h ev \<and> ev_buffer ev = Some [1, 2] \<and>
     sint (ev_result ev) = 2"
proof -
  have "case exec_acts sample_env sample_streams [Act_Ring (Request sample_write), Act_Start 0 0 True,
      Act_Receive 0, Act_Round, Act_Return 0] ([], sample_aio) of None \<Rightarrow> False
    | Some (ls, t) \<Rightarrow> length ls = 5 \<and> ls ! 0 = Ring_Call (Request sample_write) (Value (Inr 0)) \<and>
      (case tasks t 0 of None \<Rightarrow> False | Some w \<Rightarrow> wt_user_data w = 0 \<and>
        (case wt_state w of Returned h ev \<Rightarrow> ev_buffer ev = Some [1, 2] \<and> sint (ev_result ev) = 2
         | _ \<Rightarrow> False))"
    by code_simp
  from exec_check [OF this] obtain ls t where
    run: "aio_run sample_env sample_streams sample_aio ls t" "length ls = 5"
      "ls ! 0 = Ring_Call (Request sample_write) (Value (Inr 0))"
    and w: "case tasks t 0 of None \<Rightarrow> False | Some w \<Rightarrow> wt_user_data w = 0 \<and>
        (case wt_state w of Returned h ev \<Rightarrow> ev_buffer ev = Some [1, 2] \<and> sint (ev_result ev) = 2
         | _ \<Rightarrow> False)" by blast
  have "Ring_Call (Request sample_write) (Value (Inr 0)) \<in> set ls"
    using run(2,3) nth_mem [of 0 ls] by simp
  with run(1,2) w show ?thesis by (fastforce split: option.splits wait_state.splits)
qed

text \<open>C3: a write that was waited for wrote the caller's bytes. Over a new ring and a new manager,
  whatever all tasks do meanwhile: the buffer that \<open>wait_for_completion\<close> returns for the value of a
  \<open>prep_write\<close> or \<open>prep_send\<close> is exactly the bytes that call was given, cut to the number the
  kernel wrote, or whole when the operation failed.\<close>

theorem awaited_write_intact:
  assumes P: "pyo3_laws (env_pyo3 E)" and U: "uring_laws (env_ring E) live" and L: "stream_laws A view"
    and ring: "create_io_ring E n cq idle single auto = Inr (ring s)"
    and mem: "\<forall>b \<in> dom (heap s). b < brk s" and fresh: "fresh_manager s"
    and run: "aio_run E A s ls t" and len: "3 * length ls \<le> 2 ^ 63"
    and req: "Ring_Call (Request req) (Value (Inr u)) \<in> set ls" "written req = Some bs"
    and k: "tasks t k = Some w" "wt_user_data w = uint u" "wt_state w = Returned h cqe"
      "ev_buffer cqe = Some buf"
  shows "(sint (ev_result cqe) < 0 \<longrightarrow> buf = bs) \<and>
    (0 \<le> sint (ev_result cqe) \<and> sint (ev_result cqe) \<le> int (length bs) \<longrightarrow>
       buf = take (nat (sint (ev_result cqe))) bs)"
proof -
  have "wait_ok (view (streams t)) (set (fetched ls)) (wt_user_data w) (wt_state w)"
    by (rule manager_inv_waitD [OF manager_inv_run [OF L run fresh] k(1)])
  with k(2,3) have got: "cqe \<in> set (fetched ls)" and u: "ev_user_data cqe = u"
    by (auto simp: addressed_def word_uint_eq_iff)
  from got obtain evs where evs: "Round (Inr evs) \<in> set ls" "cqe \<in> set evs"
    unfolding in_fetched by blast
  obtain cs where cs: "api_run E s cs t" "length cs \<le> 3 * length ls"
    "\<forall>l \<in> set ls. set_option (ring_entry l) \<subseteq> set cs"
    using aio_run_calls [OF L fresh run fresh] by blast
  with req(1) evs(1) have calls: "(Request req, Value (Inr u)) \<in> set cs"
    "(Get_Completion_Entries, Events (Inr evs)) \<in> set cs" by fastforce+
  have "events_carry cs u Buffer bs"
    using run_copies [OF P U written_copied [OF req(2)] cs(1) create_fields [OF ring] _ _ calls(1)]
      ring_inv_create [OF U ring mem] cs(2) len by simp
  with calls(2) evs(2) u k(4) have "buf = finish_buffer (ev_result cqe) bs"
    unfolding events_carry_def by blast
  then show ?thesis using finish_written by simp
qed

theorem awaited_write_intact_witness:
  "\<exists>ls t w h ev buf. aio_run sample_env sample_streams sample_aio ls t \<and>
     Ring_Call (Request sample_write) (Value (Inr 0)) \<in> set ls \<and> tasks t 0 = Some w \<and>
     wt_state w = Returned h ev \<and> ev_buffer ev = Some buf \<and> buf = take 2 [1, 2]"
proof -
  obtain ls t w h ev where run: "aio_run sample_env sample_streams sample_aio ls t" "length ls = 5"
    and call: "Ring_Call (Request sample_write) (Value (Inr 0)) \<in> set ls"
    and w: "tasks t 0 = Some w" "wt_user_data w = 0" "wt_state w = Returned h ev"
    and ev: "ev_buffer ev = Some [1, 2]" "sint (ev_result ev) = 2"
    using written_run by blast
  have facts: "\<forall>b \<in> dom (heap sample_aio). b < brk sample_aio" "3 * length ls \<le> 2 ^ 63"
    "written sample_write = Some [1, 2]" "wt_user_data w = uint (0 :: u64)"
    using run(2) w(2) by (simp_all add: sample_aio_def sample_state_def chosen_def)
  from awaited_write_intact [OF sample_env_laws(2,3) sample_streams_laws sample_aio_facts(2) facts(1)
      sample_aio_facts(1) run(1) facts(2) call facts(3) w(1) facts(4) w(3) ev(1)] ev(2)
  have "[1, 2] = take 2 ([1, 2] :: u8 list)" by simp
  with run(1) call w(1,3) ev(1) show ?thesis by blast
qed

end
