(* ===== verification/Ledger.thy ===== *)
theory Ledger
  imports Api_Run Api_Spec
begin

text \<open>
  The memory of a ring as a ledger: which requests are outstanding, and how many bytes each of them
  keeps. The ledger is a function of the history of calls alone; the table and the heap of the Rust
  side implement it, and no operation leaves a block behind that nobody owns.
\<close>

section \<open>The ledger\<close>

datatype holding =
    Path_Memory nat
  | Two_Path_Memory nat nat
  | Buffer_Memory nat
  | Address_Memory nat

definition block_size :: "mem \<Rightarrow> block \<Rightarrow> nat" where
  "block_size m b = (case m b of None \<Rightarrow> 0 | Some bs \<Rightarrow> length bs)"

fun held :: "mem \<Rightarrow> owned_data \<Rightarrow> holding" where
  "held m (OnePath p) = Path_Memory (block_size m p)"
| "held m (TwoPaths p q) = Two_Path_Memory (block_size m p) (block_size m q)"
| "held m (Buffer b) = Buffer_Memory (block_size m b)"
| "held m (SockAddr a) = Address_Memory (block_size m a)"

text \<open>The abstraction of a state, and the blocks its table does not know.\<close>

definition holdings :: "('r, 'z) st_scheme \<Rightarrow> u64 \<Rightarrow> holding option" where
  "holdings s u = map_option (held (heap s)) (owned_data (ring s) u)"

definition unowned :: "('r, 'z) st_scheme \<Rightarrow> block set" where
  "unowned s = {b \<in> dom (heap s). \<not> owned_somewhere s b}"

text \<open>What a request keeps until its completion: a path with its terminator, a buffer of the size that
  was asked for, the chosen part of what is written, a socket address.\<close>

fun keeps_for :: "('r, 'w) env \<Rightarrow> request \<Rightarrow> holding option" where
  "keeps_for E (Prep_Openat dir path mode flags perms fl) = Some (Path_Memory (Suc (length path)))"
| "keeps_for E (Prep_Close f fl) = None"
| "keeps_for E (Prep_Read f n off fl) = Some (Buffer_Memory (nat n))"
| "keeps_for E (Prep_Write f buf off n start fl) = Some (Buffer_Memory (length (chosen buf n start)))"
| "keeps_for E (Prep_Create_Socket domain kind protocol nb fl) = None"
| "keeps_for E (Prep_Connect_V4 f address port fl) = map_option (\<lambda>v4. Address_Memory
     (length (env_sockaddr E (SockV4 (map of_nat v4) (word_of_int port))))) (ipv4_from_str (py_str_v4 address))"
| "keeps_for E (Prep_Connect_V6 f address port fl) = map_option (\<lambda>v6. Address_Memory
     (length (env_sockaddr E (SockV6 (map of_nat v6) (word_of_int port))))) (ipv6_from_str address)"
| "keeps_for E (Prep_Recv f n flags fl) = Some (Buffer_Memory (nat n))"
| "keeps_for E (Prep_Send f buf n start flags fl) = Some (Buffer_Memory (length (chosen buf n start)))"

text \<open>A request that returned is entered, a completion that was fetched is struck off; nothing else
  counts.\<close>

fun book :: "('r, 'w) env \<Rightarrow> call \<times> outcome \<Rightarrow> (u64 \<rightharpoonup> holding) \<Rightarrow> (u64 \<rightharpoonup> holding)" where
  "book E (Request req, Value (Inr u)) L = L(u := keeps_for E req)"
| "book E (c, Events (Inr evs)) L = L |` (- set (map ev_user_data evs))"
| "book E _ L = L"

definition ledger :: "('r, 'w) env \<Rightarrow> (call \<times> outcome) list \<Rightarrow> (u64 \<rightharpoonup> holding)" where
  "ledger E ls = fold (book E) ls Map.empty"

text \<open>The size of the buffer each event of a batch hands over, if it hands one over: that of the
  result, or of the whole buffer after an error.\<close>

fun returned :: "i32 \<Rightarrow> holding option \<Rightarrow> nat option" where
  "returned res (Some (Buffer_Memory n)) = Some (if sint res < 0 then n else nat (sint res))"
| "returned res _ = None"

fun settlement :: "(u64 \<rightharpoonup> holding) \<Rightarrow> completion_event list \<Rightarrow> nat option list" where
  "settlement L [] = []"
| "settlement L (ev # evs) =
     returned (ev_result ev) (L (ev_user_data ev)) # settlement (L(ev_user_data ev := None)) evs"

lemma nothing_held: "holdings s = Map.empty \<Longrightarrow> unowned s = dom (heap s)"
  by (auto simp: unowned_def owned_somewhere_def holdings_def fun_eq_iff)

section \<open>Calls that change no holding\<close>

definition same_books :: "('r, 'z) st_scheme \<Rightarrow> ('r, 'z) st_scheme \<Rightarrow> bool" where
  "same_books s t \<longleftrightarrow> holdings t = holdings s \<and> unowned t = unowned s"

lemma same_books_refl: "same_books s s"
  by (simp add: same_books_def)

lemma same_books_refl_trans: "reflp same_books" "transp same_books"
  by (auto simp: reflp_def transp_def same_books_def)

lemma held_cong:
  "(\<And>b. b \<in> set (owned_blocks d) \<Longrightarrow> block_size m' b = block_size m b) \<Longrightarrow> held m' d = held m d"
  by (cases d) simp_all

text \<open>The table is the same, and so are the sizes of the blocks in it.\<close>

lemma holdings_cong:
  assumes "owned_data (ring t) = owned_data (ring s)"
    and "\<And>b. owned_somewhere s b \<Longrightarrow> block_size (heap t) b = block_size (heap s) b"
  shows "holdings t = holdings s"
proof
  fix u
  show "holdings t u = holdings s u"
    using assms by (cases "owned_data (ring s) u") (auto simp: holdings_def owned_somewhere_def intro!: held_cong)
qed

lemma unowned_cong:
  "owned_data (ring t) = owned_data (ring s) \<Longrightarrow> dom (heap t) = dom (heap s) \<Longrightarrow> unowned t = unowned s"
  by (simp add: unowned_def owned_somewhere_def)

lemma block_size_frame:
  assumes "mem_frame B m m'"
  shows "block_size m' b = block_size m b"
proof (cases "m b")
  case None
  then have "m' b = None" using assms unfolding mem_frame_def by (metis domIff)
  with None show ?thesis by (simp add: block_size_def)
next
  case (Some bs)
  with mem_frame_SomeD [OF assms Some] show ?thesis by (auto simp: block_size_def)
qed

lemma same_books_frame:
  assumes "owned_data (ring t) = owned_data (ring s)" "mem_frame B (heap s) (heap t)"
  shows "same_books s t"
  using assms holdings_cong [OF assms(1) block_size_frame [OF assms(2)]]
    unowned_cong [OF assms(1)] by (simp add: mem_frame_def same_books_def)

lemma same_books_same_ring: "same_ring s t \<Longrightarrow> same_books s t"
  by (rule same_books_frame [where B = "{}"]) (simp_all add: same_ring_def)

lemma same_books_entered: "enter_law live r (heap s) r' m' \<Longrightarrow> same_books s (entered r' m' s)"
  by (rule same_books_frame [where B = "writes_of (live r)"]) (simp_all add: enter_law_def)

lemma same_books_quiet:
  "owned_data (ring t) = owned_data (ring s) \<Longrightarrow> heap t = heap s \<Longrightarrow> same_books s t"
  by (rule same_books_frame [where B = "{}"]) simp_all

lemma books_basic:
  assumes laws: "uring_laws (env_ring E) live"
  shows "keeps same_books (submit E)" "keeps same_books (wait_cqes E n)"
    "keeps same_books (push_timeout E e)" "keeps same_books (register_eventfd E fd)"
    "keeps same_books close_ring"
proof -
  show "keeps same_books (submit E)"
    by (intro keepsI) (auto simp: submit_def simp flip: entered_def split: option.split prod.split
        dest!: uring_lawsD(3) [OF laws] intro: same_books_entered same_books_refl)
  show "keeps same_books (wait_cqes E n)"
    by (intro keepsI) (auto simp: wait_cqes_def simp flip: entered_def split: option.split prod.split
        dest!: uring_lawsD(4) [OF laws] intro: same_books_entered same_books_refl)
  show "keeps same_books (push_timeout E e)"
    by (intro keepsI same_books_quiet) (simp_all add: push_timeout_def split: option.split)
  show "keeps same_books (register_eventfd E fd)"
    by (intro keepsI same_books_quiet) (simp_all add: register_eventfd_def split: option.split prod.split)
  show "keeps same_books close_ring"
    by (intro keepsI same_books_quiet) (simp_all add: close_ring_def)
qed

lemma books_eventfd: "keeps same_books (os_eventfd_call E i fl)"
  by (simp add: keeps_def same_books_same_ring same_ring_sym eventfd_call_same)

lemma books_calls:
  assumes "uring_laws (env_ring E) live"
  shows "keeps same_books (io_submit E)" "keeps same_books (submit_and_wait E n)"
    "keeps same_books (submit_and_wait_with_timeout E sec nsec)"
    "keeps same_books (io_register_eventfd E f)"
  unfolding io_submit_def submit_and_wait_def submit_and_wait_with_timeout_def
    io_register_eventfd_def wait_with_timeout_def
  by (intro keeps_intros books_basic [OF assms] books_eventfd same_books_refl_trans;
      cases f; simp add: books_eventfd keeps_intros same_books_refl_trans)+

section \<open>Reaping\<close>

lemma reap_entry_holdings:
  assumes ok: "mem_ok s"
  shows "holdings (snd (reap_entry c s)) = (holdings s)(cqe_user_data c := None)"
proof
  fix u
  let ?t = "snd (reap_entry c s)"
  show "holdings ?t u = ((holdings s)(cqe_user_data c := None)) u"
  proof (cases "u = cqe_user_data c \<or> owned_data (ring s) u = None")
    case True
    then show ?thesis by (auto simp: holdings_def reap_entry_fields)
  next
    case False
    then obtain d where d: "owned_data (ring s) u = Some d" "u \<noteq> cqe_user_data c" by blast
    have "held (heap ?t) d = held (heap s) d"
      using mem_ok_disjoint [OF ok d(1) _ d(2)]
      by (intro held_cong) (auto simp: block_size_def heap_reap_entry restrict_map_def split: option.split)
    with d show ?thesis by (simp add: holdings_def reap_entry_fields)
  qed
qed

lemma reap_entry_unowned: "unowned (snd (reap_entry c s)) = unowned s"
  by (auto simp: unowned_def owned_somewhere_def reap_entry_fields heap_reap_entry restrict_map_def
      split: if_splits option.splits) (metis option.distinct(1) option.inject)+

lemma finish_buffer_length:
  "length (finish_buffer res bs) = (if sint res < 0 then length bs else nat (sint res))"
  by (auto simp: finish_buffer_def vec_resize_def min_def)

lemma reap_entry_returned:
  assumes ok: "mem_ok s"
  shows "map_option length (ev_buffer (fst (reap_entry c s))) =
    returned (cqe_result c) (holdings s (cqe_user_data c))"
proof (cases "owned_data (ring s) (cqe_user_data c)")
  case None
  then show ?thesis by (simp add: reap_entry_def holdings_def Let_def)
next
  case (Some d)
  show ?thesis
  proof (cases d)
    case (Buffer b)
    have "b \<in> dom (heap s)" using ok Some Buffer by (force simp: mem_ok_def)
    then obtain bs where "heap s b = Some bs" by blast
    with Some Buffer show ?thesis
      by (simp add: reap_entry_def holdings_def Let_def finish_buffer_length block_size_def)
  qed (use Some in \<open>simp_all add: reap_entry_def holdings_def Let_def\<close>)
qed

lemma reap_entries_books:
  "mem_ok s \<Longrightarrow> holdings (snd (reap_entries cs s)) = holdings s |` (- cqe_user_data ` set cs) \<and>
     unowned (snd (reap_entries cs s)) = unowned s \<and>
     map (map_option length \<circ> ev_buffer) (fst (reap_entries cs s)) =
       settlement (holdings s) (fst (reap_entries cs s))"
proof (induction cs arbitrary: s)
  case Nil
  then show ?case by (simp add: restrict_map_def)
next
  case (Cons c cs)
  let ?s1 = "snd (reap_entry c s)"
  define L where "L = (holdings s)(cqe_user_data c := None)"
  have here: "holdings ?s1 = L" unfolding L_def by (rule reap_entry_holdings [OF Cons.prems])
  note IH = Cons.IH [OF mem_ok_reap_entry [OF Cons.prems, of c], unfolded here]
  have "L |` (- cqe_user_data ` set cs) = holdings s |` (- cqe_user_data ` set (c # cs))"
    by (auto simp: L_def restrict_map_def fun_eq_iff)
  with IH reap_entry_unowned [of c s] reap_entry_returned [OF Cons.prems, of c]
  show ?case unfolding reap_entries_Cons by (simp add: reap_entry_fields flip: L_def)
qed

lemma reap_entries_user_data: "map ev_user_data (fst (reap_entries cs s)) = map cqe_user_data cs"
  by (induction cs arbitrary: s) (simp_all add: reap_entries_Cons reap_entry_fields del: reap_entries.simps(2))

lemma reap_books:
  assumes laws: "uring_laws (env_ring E) live" and ok: "mem_ok s"
    and run: "get_completion_entries E s = Some (x, t)"
  shows "holdings t = book E (c, Events x) (holdings s)" and "unowned t = unowned s"
    and "x = Inr evs \<Longrightarrow> map (map_option length \<circ> ev_buffer) evs = settlement (holdings s) evs"
proof -
  have "holdings t = book E (c, Events x) (holdings s) \<and> unowned t = unowned s \<and>
    (\<forall>evs. x = Inr evs \<longrightarrow> map (map_option length \<circ> ev_buffer) evs = settlement (holdings s) evs)"
    using run
  proof (cases rule: get_completion_entriesE)
    case closed
    then show ?thesis by simp
  next
    case (reaped r es r' m')
    let ?s1 = "entered r' m' s"
    from drain_spec [OF laws reaped(2)] have enter: "enter_law live r (heap s) r' m'" by auto
    have same: "holdings ?s1 = holdings s" "unowned ?s1 = unowned s"
      using same_books_entered [of live r s r' m'] enter by (simp_all add: same_books_def)
    have "mem_ok ?s1" using mem_ok_frame [OF ok, of "writes_of (live r)"] enter by (simp add: enter_law_def)
    note after = reap_entries_books [OF this, of es, unfolded same]
    have "cqe_user_data ` set es = set (map ev_user_data (fst (reap_entries es ?s1)))"
      by (simp only: reap_entries_user_data set_map)
    with after show ?thesis by (simp add: reaped(3,4))
  qed
  then show "holdings t = book E (c, Events x) (holdings s)" "unowned t = unowned s"
    and "x = Inr evs \<Longrightarrow> map (map_option length \<circ> ev_buffer) evs = settlement (holdings s) evs" by blast+
qed

section \<open>Submitting\<close>

text \<open>A program that submits under an unused value enters \<open>h\<close> when it returns and nothing when it
  raises.\<close>

definition settles ::
  "u64 \<Rightarrow> (('r, 'z) st_scheme, unit) prog \<Rightarrow> holding option \<Rightarrow> bool" where
  "settles ud m h \<longleftrightarrow> (\<forall>s. mem_ok s \<longrightarrow> owned_data (ring s) ud = None \<longrightarrow>
     unowned (snd (m s)) = unowned s \<and>
     holdings (snd (m s)) = (if isl (fst (m s)) then holdings s else (holdings s)(ud := h)))"

lemma settles_require: "settles ud m h \<Longrightarrow> settles ud (bindP (require_support c n) (\<lambda>_. m)) h"
  by (simp add: settles_def bindP_require_support)

lemma settles_refuse: "settles ud m h \<Longrightarrow> settles ud (bindP (refuse_skip_success E fl) (\<lambda>_. m)) h"
  by (simp add: settles_def bindP_refuse_skip)

lemma settles_lift: "(\<And>x. r = Inr x \<Longrightarrow> settles ud (f x) h) \<Longrightarrow> settles ud (bindP (liftP r) f) h"
  by (cases r) (simp_all add: settles_def bindP_liftP)

lemma settles_reads: "reads m \<Longrightarrow> (\<And>x. settles ud (f x) h) \<Longrightarrow> settles ud (bindP m f) h"
  by (simp add: settles_def bindP_reads split: sum.split)

lemma holdings_unused: "owned_data (ring s) ud = None \<Longrightarrow> (holdings s)(ud := None) = holdings s"
  by (auto simp: holdings_def)

text \<open>Whether it pushes or fails, \<open>autosubmit\<close> changes no size and no owner.\<close>

definition only_enters :: "(('r, 'z) st_scheme, unit) prog \<Rightarrow> bool" where
  "only_enters m \<longleftrightarrow> (\<forall>s. owned_data (ring (snd (m s))) = owned_data (ring s) \<and>
     (\<exists>B. mem_frame B (heap s) (heap (snd (m s)))))"

lemma only_enters_autosubmit:
  assumes laws: "uring_laws (env_ring E) live"
  shows "only_enters (autosubmit E e)"
  unfolding only_enters_def
proof
  fix s :: "('a, 'c) st_scheme"
  obtain x t where run: "autosubmit E e s = (x, t)" by (metis prod.exhaust)
  have "\<exists>B. mem_frame B (heap s) (heap t)"
  proof (cases "the_io_uring (ring s)")
    case None
    with run show ?thesis by (auto simp: autosubmit_def)
  next
    case (Some r)
    from laws Some run show ?thesis by (cases rule: autosubmit_cases) (auto simp: enter_law_def)
  qed
  with autosubmit_frame(1) [of E e s] run
  show "owned_data (ring (snd (autosubmit E e s))) = owned_data (ring s) \<and>
    (\<exists>B. mem_frame B (heap s) (heap (snd (autosubmit E e s))))" by simp
qed

lemma only_entersD: "only_enters m \<Longrightarrow> same_books s (snd (m s))"
  unfolding only_enters_def using same_books_frame by blast

lemma only_enters_refuse:
  "only_enters m \<Longrightarrow> only_enters (bindP (refuse_skip_success E fl) (\<lambda>_. m))"
  by (auto simp: only_enters_def bindP_refuse_skip)

lemma settles_plain:
  assumes "uring_laws (env_ring E) live"
  shows "settles ud (autosubmit E e) None"
  by (simp add: settles_def holdings_unused
      only_entersD [OF only_enters_autosubmit [OF assms], unfolded same_books_def])

text \<open>The heap \<open>m\<close> of \<open>s\<close> with a new block, after a call into the kernel: what else it has is old.\<close>

lemma new_block:
  assumes ok: "mem_ok s" and frame: "mem_frame B ((heap s)(brk s \<mapsto> bs)) m"
  shows "dom m = insert (brk s) (dom (heap s))" and "heap s (brk s) = None"
    and "block_size m (brk s) = length bs"
    and "owned_somewhere s b \<Longrightarrow> b \<noteq> brk s \<and> block_size m b = block_size (heap s) b"
proof -
  show fresh: "heap s (brk s) = None" using ok by (rule mem_ok_fresh)
  show "dom m = insert (brk s) (dom (heap s))" using frame by (simp add: mem_frame_def)
  have size: "block_size m b = (if b = brk s then length bs else block_size (heap s) b)" for b
    using block_size_frame [OF frame, of b] by (simp add: block_size_def)
  then show "block_size m (brk s) = length bs" by simp
  show "b \<noteq> brk s \<and> block_size m b = block_size (heap s) b" if "owned_somewhere s b"
    using owned_allocated [OF ok that] fresh size [of b] by auto
qed

lemma books_dropped:
  assumes ok: "mem_ok s" and frame: "mem_frame B ((heap s)(brk s \<mapsto> bs)) (heap t)"
    and own: "owned_data (ring t) = owned_data (ring s)"
  shows "same_books s (free_blocks [brk s] t)" (is "same_books s ?t")
proof -
  note new = new_block [OF ok frame]
  have "dom (heap ?t) = dom (heap s)" using new(1,2) by (auto simp: free_blocks_def)
  moreover have "block_size (heap ?t) b = block_size (heap s) b" if "owned_somewhere s b" for b
    using new(4) [OF that] by (simp add: block_size_def)
  ultimately show ?thesis
    using own holdings_cong [of ?t s] unowned_cong [of ?t s] by (simp add: same_books_def)
qed

lemma books_entered:
  assumes ok: "mem_ok s" and frame: "mem_frame B ((heap s)(brk s \<mapsto> bs)) (heap t)"
    and own: "owned_data (ring t) = owned_data (ring s)" and none: "owned_data (ring s) ud = None"
    and d: "owned_blocks d = [brk s]"
  shows "unowned (owned_insert ud d t) = unowned s"
    and "holdings (owned_insert ud d t) = (holdings s)(ud \<mapsto> held (heap t) d)"
proof -
  let ?t = "owned_insert ud d t"
  note new = new_block [OF ok frame]
  have heap: "heap ?t = heap t" using none own by (intro owned_insert_heap) simp
  have "owned_somewhere ?t b \<longleftrightarrow> b = brk s \<or> owned_somewhere s b" for b
    using none d by (auto simp: owned_somewhere_def own) (metis option.distinct(1))
  then show "unowned ?t = unowned s" using new(1,2) by (auto simp: unowned_def heap)
  have "held (heap t) d' = held (heap s) d'" if "owned_data (ring s) v = Some d'" for v d'
    using new(4) that by (intro held_cong) (auto simp: owned_somewhere_def)
  then show "holdings ?t = (holdings s)(ud \<mapsto> held (heap t) d)"
    by (auto simp: holdings_def fun_eq_iff heap own intro!: map_option_cong)
qed

text \<open>Copy to the heap, submit, hand the copy to the table, or drop it.\<close>

lemma settles_owned:
  fixes m :: "block \<Rightarrow> (('r, 'z) st_scheme, unit) prog"
  assumes m: "\<And>b. only_enters (m b)"
    and h: "\<And>b m'. block_size m' b = length bs \<Longrightarrow> h = Some (held m' (d b))"
    and d: "\<And>b. owned_blocks (d b) = [b]"
  shows "settles ud (bindP (alloc bs) (\<lambda>b. bindP (or_drop b (m b)) (\<lambda>_. modP (owned_insert ud (d b))))) h"
    (is "settles ud ?w h")
  unfolding settles_def
proof (intro allI impI)
  fix s :: "('r, 'z) st_scheme"
  assume ok: "mem_ok s" and none: "owned_data (ring s) ud = None"
  obtain x t where run: "m (brk s) (snd (alloc bs s)) = (x, t)" by (metis prod.exhaust)
  note w = owned_submit_run [where m = m, OF run]
  obtain B where own: "owned_data (ring t) = owned_data (ring s)"
    and frame: "mem_frame B ((heap s)(brk s \<mapsto> bs)) (heap t)"
    using m [of "brk s"] run unfolding only_enters_def by (metis alloc_state snd_conv)
  show "unowned (snd (?w s)) = unowned s \<and>
      holdings (snd (?w s)) = (if isl (fst (?w s)) then holdings s else (holdings s)(ud := h))"
  proof (cases x)
    case (Inl e)
    with books_dropped [OF ok frame own] show ?thesis by (simp add: w same_books_def)
  next
    case (Inr u)
    with books_entered [OF ok frame own none d] h [OF new_block(3) [OF ok frame]]
    show ?thesis by (simp add: w)
  qed
qed

section \<open>The nine functions\<close>

lemma settles_owned_auto:
  assumes "uring_laws (env_ring E) live"
    and "\<And>b m'. block_size m' b = length bs \<Longrightarrow> h = Some (held m' (d b))" "\<And>b. owned_blocks (d b) = [b]"
  shows "settles ud (bindP (alloc bs) (\<lambda>b.
      bindP (or_drop b (autosubmit E (entry b))) (\<lambda>_. modP (owned_insert ud (d b))))) h"
    and "settles ud (bindP (alloc bs) (\<lambda>b. bindP (or_drop b (bindP (refuse_skip_success E fl)
      (\<lambda>_. autosubmit E (entry b)))) (\<lambda>_. modP (owned_insert ud (d b))))) h"
  using assms(2,3)
  by - (intro settles_owned only_enters_refuse only_enters_autosubmit [OF assms(1)]; blast)+

lemmas settles_rules = settles_require settles_refuse settles_lift

lemma settles_ioring:
  assumes U: "uring_laws (env_ring E) live"
  shows "settles ud (ioring_prep_openat E dirfd path ud oflags md fl) (Some (Path_Memory (Suc (length path))))"
    "settles ud (ioring_prep_close E fd ud fl) None"
    "settles ud (ioring_prep_read E fd n off ud fl) (Some (Buffer_Memory (unat n)))"
    "settles ud (ioring_prep_write E fd data sz start off ud fl)
       (Some (Buffer_Memory (length (take (unat sz) (drop (unat start) data)))))"
    "settles ud (ioring_prep_create_socket E domain kind protocol ud fl) None"
    "settles ud (do_sockaddr_submit E fd addr ud fl) (Some (Address_Memory (length (env_sockaddr E addr))))"
    "settles ud (ioring_prep_recv E fd n flags ud fl) (Some (Buffer_Memory (unat n)))"
    "settles ud (ioring_prep_send E fd data sz start flags ud fl)
       (Some (Buffer_Memory (length (take (unat sz) (drop (unat start) data)))))"
  unfolding ffi_defs do_sockaddr_submit_def add_owned_buffer_def add_owned_path_def
    add_owned_sockaddr_def Let_def
  by (intro settles_rules settles_owned_auto [OF U] settles_plain [OF U]; auto dest: checked_slice simp del: length_take length_drop)+

lemma settles_ffi:
  assumes U: "uring_laws (env_ring E) live" and P: "pyo3_laws (env_pyo3 E)"
  shows "settles ud (ffi_prep_openat E dirfd path ud oflags perms fl) (Some (Path_Memory (Suc (length path))))"
    "settles ud (ffi_prep_close E fd ud fl) None"
    "settles ud (ffi_prep_read E fd n off ud fl) (Some (Buffer_Memory (nat n)))"
    "settles ud (ffi_prep_write E fd buf n start off ud fl)
       (Some (Buffer_Memory (length (take (nat n) (drop (nat start) (buf_bytes buf))))))"
    "settles ud (ffi_prep_create_socket E domain kind protocol ud fl) None"
    "settles ud (ffi_prep_connect_v4 E fd ip port ud fl) (map_option (\<lambda>v4. Address_Memory
       (length (env_sockaddr E (SockV4 (map of_nat v4) (word_of_int port))))) (ipv4_from_str ip))"
    "settles ud (ffi_prep_connect_v6 E fd ip port ud fl) (map_option (\<lambda>v6. Address_Memory
       (length (env_sockaddr E (SockV6 (map of_nat v6) (word_of_int port))))) (ipv6_from_str ip))"
    "settles ud (ffi_prep_recv E fd n flags ud fl) (Some (Buffer_Memory (nat n)))"
    "settles ud (ffi_prep_send E fd buf n start flags ud fl)
       (Some (Buffer_Memory (length (take (nat n) (drop (nat start) (buf_bytes buf))))))"
  unfolding ffi_prep_openat_def ffi_prep_close_def ffi_prep_read_def ffi_prep_write_def
    ffi_prep_create_socket_def ffi_prep_connect_v4_def ffi_prep_connect_v6_def ffi_prep_recv_def
    ffi_prep_send_def ioring_prep_connect_v4_def ioring_prep_connect_v6_def
  by (intro settles_lift settles_require;
      auto dest!: pyo3_value [OF P] simp: parse_or_raise_def simp del: length_take length_drop
        split: option.splits intro: settles_ioring [OF U])+

text \<open>With the number of the ring, on a state where the invariant holds.\<close>

definition enters_book ::
  "('r \<Rightarrow> sqe multiset) \<Rightarrow> (('r, 'z) st_scheme, u64) prog \<Rightarrow> holding option \<Rightarrow> bool" where
  "enters_book live m h \<longleftrightarrow> (\<forall>s. ring_inv live s \<longrightarrow> user_data_counter (ring s) < 2 ^ 63 \<longrightarrow>
     unowned (snd (m s)) = unowned s \<and>
     holdings (snd (m s)) = (case fst (m s) of Inl _ \<Rightarrow> holdings s | Inr u \<Rightarrow> (holdings s)(u := h)))"

lemma enters_book_reads:
  "reads m \<Longrightarrow> (\<And>x. enters_book live (f x) h) \<Longrightarrow> enters_book live (bindP m f) h"
  by (simp add: enters_book_def bindP_reads split: sum.split)

lemma enters_book_numbered:
  fixes op :: "u64 \<Rightarrow> (('r, 'z) st_scheme, unit) prog"
  assumes "\<And>ud. settles ud (op ud) h"
  shows "enters_book live (numbered op) h"
  unfolding enters_book_def
proof (intro allI impI)
  fix s :: "('r, 'z) st_scheme"
  assume inv: "ring_inv live s" and small: "user_data_counter (ring s) < 2 ^ 63"
  let ?u = "user_data_counter (ring s)"
  obtain s1 where nx: "get_next_user_data s = (Inr ?u, s1)" by (simp add: get_next_user_data_def)
  obtain x t where run: "op ?u s1 = (x, t)" by (metis prod.exhaust)
  have "mem_ok s1" "owned_data (ring s1) ?u = None"
    using ring_inv_get_next_user_data [OF inv small nx] by (simp_all add: ring_inv_def unused_ud_def)
  with assms [of ?u] run have "unowned t = unowned s1"
    and "holdings t = (if isl x then holdings s1 else (holdings s1)(?u := h))"
    unfolding settles_def by (metis fst_conv snd_conv)+
  moreover have "same_books s s1"
    using nx by (intro same_books_quiet) (auto simp: get_next_user_data_def)
  moreover have "numbered op s = ((case x of Inl e \<Rightarrow> Inl e | Inr _ \<Rightarrow> Inr ?u), t)"
    using run by (simp add: numbered_def bindP_app nx split: sum.split)
  ultimately show "unowned (snd (numbered op s)) = unowned s \<and> holdings (snd (numbered op s)) =
      (case fst (numbered op s) of Inl _ \<Rightarrow> holdings s | Inr u \<Rightarrow> (holdings s)(u := h))"
    by (simp add: same_books_def split: sum.split)
qed

lemma settles_after:
  assumes "settles ud m h" "\<And>s. ring (f s) = ring s \<and> heap (f s) = heap s"
  shows "settles ud (bindP m (\<lambda>_. modP f)) h"
proof -
  have run: "snd (bindP m (\<lambda>_. modP f) s) = (if isl (fst (m s)) then snd (m s) else f (snd (m s)))"
    "fst (bindP m (\<lambda>_. modP f) s) = fst (m s)" for s
    by (cases "m s"; cases "fst (m s)"; simp add: bindP_def)+
  have "same_books s (f s)" for s
    using assms(2) by (intro same_books_quiet) simp_all
  with assms(1) show ?thesis unfolding settles_def run by (simp add: same_books_def)
qed

text \<open>Every method enters what its request keeps.\<close>

lemma settles_chunk:
  assumes U: "uring_laws (env_ring E) live" and P: "pyo3_laws (env_pyo3 E)"
  shows "settles ud (ffi_prep_write E fd buf (case n of None \<Rightarrow> int (length (buf_bytes buf)) | Some k \<Rightarrow> k)
      (case start of None \<Rightarrow> 0 | Some k \<Rightarrow> k) off ud fl) (Some (Buffer_Memory (length (chosen buf n start))))"
    "settles ud (ffi_prep_send E fd buf (case n of None \<Rightarrow> int (length (buf_bytes buf)) | Some k \<Rightarrow> k)
      (case start of None \<Rightarrow> 0 | Some k \<Rightarrow> k) flags ud fl) (Some (Buffer_Memory (length (chosen buf n start))))"
  using settles_ffi(4,9) [OF U P, of ud fd buf "case n of None \<Rightarrow> int (length (buf_bytes buf)) | Some k \<Rightarrow> k"
      "case start of None \<Rightarrow> 0 | Some k \<Rightarrow> k"]
  by (simp_all add: chosen_def Let_def int_to_nat_len del: length_take length_drop)

lemma close_enters_book:
  assumes U: "uring_laws (env_ring E) live" and P: "pyo3_laws (env_pyo3 E)"
  shows "enters_book live (prep_close E f fl) None"
proof (cases f)
  case (FdInt i)
  show ?thesis unfolding FdInt prep_close_int
    by (intro enters_book_numbered settles_reads reads_unwrap_file settles_ffi [OF U P])
next
  case (FdObj h)
  show ?thesis unfolding FdObj prep_close_obj mark_closed_def
    by (intro enters_book_numbered settles_after settles_reads reads_unwrap_file settles_ffi [OF U P]) simp
qed

lemma perform_enters_book:
  assumes U: "uring_laws (env_ring E) live" and P: "pyo3_laws (env_pyo3 E)"
  shows "enters_book live (perform E req) (keeps_for E req)"
  by (cases req)
    (auto simp: prep_openat_def prep_read_def prep_write_def prep_create_socket_def prep_connect_v4_def
      prep_connect_v6_def prep_recv_def prep_send_def Let_def numbered_after simp flip: numbered_def
      intro!: enters_book_reads enters_book_numbered settles_reads settles_ffi [OF U P]
        settles_chunk [OF U P] close_enters_book [OF U P])

section \<open>Histories\<close>

text \<open>Each step is the one the ledger makes.\<close>

definition booked :: "('r, 'w) env \<Rightarrow> call \<times> outcome \<Rightarrow> ('r, 'z) st_scheme \<Rightarrow> ('r, 'z) st_scheme \<Rightarrow> bool" where
  "booked E l s t \<longleftrightarrow> holdings t = book E l (holdings s) \<and> unowned t = unowned s"

lemma booked_same: "same_books s t \<Longrightarrow> booked E (c, Done) s t"
  by (simp add: booked_def same_books_def)

lemma booked_keeps: "keeps same_books m \<Longrightarrow> m s = (x, t) \<Longrightarrow> booked E (c, Done) s t"
  using keepsD [of same_books m s] by (intro booked_same) simp

lemma step_booked:
  assumes U: "uring_laws (env_ring E) live" and P: "pyo3_laws (env_pyo3 E)"
  shows "api_step E s l t \<Longrightarrow> ring_inv live s \<Longrightarrow> user_data_counter (ring s) < 2 ^ 63 \<Longrightarrow> booked E l s t"
proof (induction rule: api_step.induct)
  case (step_request req s x t)
  with perform_enters_book [OF U P, of req, unfolded enters_book_def, rule_format, of s]
  show ?case by (cases x) (simp_all add: booked_def)
next
  case (step_reap s x t)
  then have "mem_ok s" by (simp add: ring_inv_def)
  with reap_books(1,2) [OF U _ step_reap(1)] show ?case by (simp add: booked_def)
next
  case (step_handle t u h s)
  then show ?case by (simp add: booked_same same_books_same_ring same_ring_sym same_ring_handle)
next
  case (step_event ev s x t)
  with same_ring_event [of ev s] show ?case
    by (intro booked_same same_books_same_ring) (simp add: same_ring_def)
next
  case (step_elsewhere s t)
  then show ?case by (intro booked_same same_books_same_ring)
qed (auto intro: booked_keeps books_calls [OF U] books_basic [OF U])

lemma ledger_simps: "ledger E [] = Map.empty" "ledger E (ls @ [l]) = book E l (ledger E ls)"
  by (simp_all add: ledger_def)

lemma run_booked:
  assumes U: "uring_laws (env_ring E) live" and P: "pyo3_laws (env_pyo3 E)"
  shows "api_run E s ls t \<Longrightarrow> user_data_counter (ring s) = 0 \<Longrightarrow> owned_data (ring s) = Map.empty \<Longrightarrow>
    ring_inv live s \<Longrightarrow> length ls \<le> 2 ^ 63 \<Longrightarrow> holdings t = ledger E ls \<and> unowned t = dom (heap s)"
proof (induction rule: api_run.induct)
  case (run_nil s)
  then show ?case by (auto simp: ledger_simps holdings_def unowned_def owned_somewhere_def)
next
  case (run_snoc s ls t l u)
  have n: "length ls < 2 ^ 63" using run_snoc.prems(4) by simp
  then have "unat (user_data_counter (ring t)) < 2 ^ 63"
    using run_facts [OF run_snoc.hyps(1) run_snoc.prems(1,2)] by linarith
  then have small: "user_data_counter (ring t) < 2 ^ 63" by (simp add: word_less_nat_alt)
  have "ring_inv live t" using run_inv [OF U run_snoc.hyps(1) run_snoc.prems(1-3)] n by simp
  from step_booked [OF U P run_snoc.hyps(2) this small] run_snoc.IH run_snoc.prems n
  show ?case by (simp add: booked_def ledger_simps)
qed

text \<open>Only issued values are outstanding, which makes an empty ledger a finite check.\<close>

lemma ledger_issued: "dom (ledger E ls) \<subseteq> set (issued ls)"
proof (induction ls rule: rev_induct)
  case Nil
  then show ?case by (simp add: ledger_simps)
next
  case (snoc l ls)
  have "dom (book E l L) \<subseteq> dom L \<union> set (issued_by (snd l))" for L
    by (cases "(E, l, L)" rule: book.cases) (auto split: if_splits)
  with snoc show ?case by (fastforce simp: ledger_simps)
qed

lemma ledger_empty: "list_all (\<lambda>u. ledger E ls u = None) (issued ls) \<Longrightarrow> ledger E ls = Map.empty"
  using ledger_issued [of E ls] by (fastforce simp: list_all_iff fun_eq_iff)

text \<open>The last step of a history.\<close>

lemma run_snocD: "api_run E s (ls @ [l]) t \<Longrightarrow> \<exists>r. api_run E s ls r \<and> api_step E r l t"
  by (cases rule: api_run.cases) auto

lemma last_events:
  assumes U: "uring_laws (env_ring E) live" and ok: "mem_ok s" and st: "api_step E s (c, Events (Inr evs)) t"
  shows "map (map_option length \<circ> ev_buffer) evs = settlement (holdings s) evs"
  using st by cases (use reap_books(3) [OF U ok] in auto)

lemma sample_ledger:
  "\<exists>ls t. api_run sample_env sample_state ls t \<and> length ls = 5 \<and>
     ledger sample_env ls 0 = None \<and> ledger sample_env ls 2 = Some (Buffer_Memory 4)"
proof -
  have "case exec_calls sample_env sample_calls ([], sample_state) of None \<Rightarrow> False
    | Some (ls, t) \<Rightarrow> length ls = 5 \<and> ledger sample_env ls 0 = None \<and>
        ledger sample_env ls 2 = Some (Buffer_Memory 4)"
    by code_simp
  then show ?thesis using exec_calls_run [OF run_nil] by (fastforce split: option.splits)
qed

text \<open>The first batch of the sample history.\<close>

lemma sample_batch:
  "\<exists>ls evs t. api_run sample_env sample_state (ls @ [(Get_Completion_Entries, Events (Inr evs))]) t \<and>
     length ls = 3 \<and> map ev_user_data evs = [0, 1] \<and>
     ledger sample_env ls 0 = Some (Buffer_Memory 4) \<and> ledger sample_env ls 1 = Some (Buffer_Memory 2)"
proof -
  have "case exec_calls sample_env (take 3 sample_calls) ([], sample_state) of None \<Rightarrow> False
    | Some (ls, r) \<Rightarrow> length ls = 3 \<and> ledger sample_env ls 0 = Some (Buffer_Memory 4) \<and>
        ledger sample_env ls 1 = Some (Buffer_Memory 2) \<and>
        (case exec_call sample_env Get_Completion_Entries r of
           Some (Events (Inr evs), t) \<Rightarrow> map ev_user_data evs = [0, 1] | _ \<Rightarrow> False)"
    by code_simp
  then obtain ls r where ls: "exec_calls sample_env (take 3 sample_calls) ([], sample_state) = Some (ls, r)"
    and facts: "length ls = 3" "ledger sample_env ls 0 = Some (Buffer_Memory 4)"
      "ledger sample_env ls 1 = Some (Buffer_Memory 2)"
    and got: "case exec_call sample_env Get_Completion_Entries r of
      Some (Events (Inr evs), t) \<Rightarrow> map ev_user_data evs = [0, 1] | _ \<Rightarrow> False"
    by (auto simp del: exec_call.simps split: option.splits)
  from got obtain evs t where
    st: "exec_call sample_env Get_Completion_Entries r = Some (Events (Inr evs), t)"
      "map ev_user_data evs = [0, 1]"
    by (cases "exec_call sample_env Get_Completion_Entries r")
      (auto simp del: exec_call.simps split: outcome.splits sum.splits)
  from run_snoc [OF exec_calls_run [OF run_nil ls] exec_call_step [OF st(1)]] facts st(2)
  show ?thesis by (intro exI conjI)
qed

section \<open>Properties\<close>

text \<open>C6: no memory is lost and none is kept too long. Over any history of a new ring the table of the
  Rust side holds exactly what a ledger of the calls says: one entry for each request that returned
  and whose completion was not fetched yet, of the right kind and with as many bytes as the request
  needs. Nothing else was added to the heap, whatever was raised on the way: its other blocks are
  those it had before, so when nothing is outstanding all memory is back.\<close>

theorem memory_accounted:
  assumes "pyo3_laws (env_pyo3 E)" "uring_laws (env_ring E) live"
    and "create_io_ring E n cq idle single auto = Inr (ring s)" "\<forall>b \<in> dom (heap s). b < brk s"
    and "api_run E s ls t" "length ls \<le> 2 ^ 63"
  shows "holdings t = ledger E ls \<and>
    {b \<in> dom (heap t). \<not> owned_somewhere t b} = dom (heap s) \<and>
    (ledger E ls = Map.empty \<longrightarrow> dom (heap t) = dom (heap s))"
proof -
  have inv: "ring_inv live s" using ring_inv_create [OF assms(2,3,4)] by simp
  have books: "holdings t = ledger E ls" "unowned t = dom (heap s)"
    using run_booked [OF assms(2,1,5) create_fields [OF assms(3)] inv assms(6)] by simp_all
  with nothing_held [of t] show ?thesis by (simp add: unowned_def)
qed

theorem memory_accounted_witness:
  "\<exists>ls t. api_run sample_env sample_state ls t \<and> holdings t = ledger sample_env ls \<and>
     holdings t 0 = None \<and> holdings t 2 = Some (Buffer_Memory 4) \<and>
     {b \<in> dom (heap t). \<not> owned_somewhere t b} = dom (heap sample_state)"
proof -
  obtain ls t where run: "api_run sample_env sample_state ls t" "length ls = 5"
    "ledger sample_env ls 0 = None" "ledger sample_env ls 2 = Some (Buffer_Memory 4)"
    using sample_ledger by blast
  with memory_accounted [OF sample_env_laws(2,3) sample_state_created sample_heap run(1)]
  show ?thesis by (intro exI [of _ ls] exI [of _ t]) simp
qed

text \<open>C8: each batch of events settles the ledger. When \<open>get_completion_entries\<close> returns, an event
  carries a buffer if and only if it is the first of the batch for an outstanding read, write, receive
  or send; that buffer has the length of the result, or its full length when the operation failed.
  Events for anything else, or for the same request again, carry none.\<close>

theorem events_settle_ledger:
  assumes "pyo3_laws (env_pyo3 E)" "uring_laws (env_ring E) live"
    and "create_io_ring E n cq idle single auto = Inr (ring s)" "\<forall>b \<in> dom (heap s). b < brk s"
    and "api_run E s (ls @ [(c, Events (Inr evs))]) t" "length ls < 2 ^ 63"
  shows "map (map_option length \<circ> ev_buffer) evs = settlement (ledger E ls) evs"
proof -
  obtain r where r: "api_run E s ls r" "api_step E r (c, Events (Inr evs)) t"
    using run_snocD [OF assms(5)] by blast
  have inv: "ring_inv live s" using ring_inv_create [OF assms(2,3,4)] by simp
  note len = less_imp_le [OF assms(6)]
  have "holdings r = ledger E ls"
    using run_booked [OF assms(2,1) r(1) create_fields [OF assms(3)] inv len] by simp
  moreover have "mem_ok r"
    using created_run_inv [OF assms(2,3,4) r(1) len] by (simp add: ring_inv_def)
  ultimately show ?thesis using last_events [OF assms(2) _ r(2)] by simp
qed

theorem events_settle_ledger_witness:
  "\<exists>ls evs t. api_run sample_env sample_state (ls @ [(Get_Completion_Entries, Events (Inr evs))]) t \<and>
     map ev_user_data evs = [0, 1] \<and> map (map_option length \<circ> ev_buffer) evs =
       [returned (ev_result (evs ! 0)) (Some (Buffer_Memory 4)),
        returned (ev_result (evs ! 1)) (Some (Buffer_Memory 2))]"
proof -
  obtain ls evs t where
    run: "api_run sample_env sample_state (ls @ [(Get_Completion_Entries, Events (Inr evs))]) t"
    and facts: "length ls = 3" "map ev_user_data evs = [0, 1]"
      "ledger sample_env ls 0 = Some (Buffer_Memory 4)" "ledger sample_env ls 1 = Some (Buffer_Memory 2)"
    using sample_batch by (elim exE conjE)
  have "map (map_option length \<circ> ev_buffer) evs = settlement (ledger sample_env ls) evs"
    using events_settle_ledger [OF sample_env_laws(2,3) sample_state_created sample_heap run] facts(1) by simp
  with run facts show ?thesis
    by (intro exI [of _ ls] exI [of _ evs] exI [of _ t]) (auto simp: map_eq_Cons_conv)
qed

end
