(* ===== verification/Manager_Ledger.thy ===== *)
theory Manager_Ledger
  imports Manager_Ring Manager_Sample Ledger
begin

text \<open>
  The ledger of the ring under the manager: what tasks wait for, cancel, fetch too early or never
  fetch changes nothing in what the Rust side keeps.
\<close>

lemma ledger_observed: "ledger E (observed cs) = ledger E cs"
proof (induction cs rule: rev_induct)
  case Nil
  then show ?case by simp
next
  case (snoc e cs)
  have "book E e L = L" if "snd e = Done" for L
    using that by (cases e) simp
  with snoc show ?case by (simp add: ledger_simps)
qed

text \<open>A history of the manager at work on a new ring, as the ring sees it.\<close>

lemma aio_run_ledger:
  assumes P: "pyo3_laws (env_pyo3 E)" and U: "uring_laws (env_ring E) live" and L: "stream_laws A view"
    and ring: "create_io_ring E n cq idle single auto = Inr (ring s)"
    and mem: "\<forall>b \<in> dom (heap s). b < brk s" and fresh: "fresh_manager s"
    and run: "aio_run E A s ls t" and len: "3 * length ls \<le> 2 ^ 63"
  shows "holdings t = ledger E (ring_history ls)" and "unowned t = dom (heap s)"
proof -
  obtain cs where cs: "api_run E s cs t" "length cs \<le> 3 * length ls"
    "observed cs = observed (ring_history ls)"
    using aio_run_calls [OF L fresh run fresh] by blast
  have "ring_inv live s" using ring_inv_create [OF U ring mem] by simp
  from run_booked [OF U P cs(1) create_fields [OF ring] this] cs(2) len
  have "holdings t = ledger E cs" "unowned t = dom (heap s)" by simp_all
  moreover have "ledger E cs = ledger E (ring_history ls)" using ledger_observed cs(3) by metis
  ultimately show "holdings t = ledger E (ring_history ls)" "unowned t = dom (heap s)" by simp_all
qed

text \<open>A read is cancelled by the task that waits for it, and its completion fetched by the dispatcher.\<close>

lemma abandoned_run:
  "\<exists>ls t w h. aio_run sample_env sample_streams sample_aio ls t \<and> length ls = 5 \<and>
     tasks t 0 = Some w \<and> wt_state w = Cancelled h \<and> issued (ring_history ls) = [0] \<and> ledger sample_env (ring_history ls) = Map.empty"
proof -
  have "case exec_acts sample_env sample_streams (prep_acts @ [Act_Receive 0, Act_Cancel 0, Act_Round])
      ([], sample_aio) of None \<Rightarrow> False
    | Some (ls, t) \<Rightarrow> length ls = 5 \<and> (case tasks t 0 of None \<Rightarrow> False
      | Some w \<Rightarrow> (case wt_state w of Cancelled h \<Rightarrow> True | _ \<Rightarrow> False)) \<and>
      list_all (\<lambda>u. ledger sample_env (ring_history ls) u = None) (issued (ring_history ls)) \<and>
      issued (ring_history ls) = [0]"
    by code_simp
  from exec_check [OF this] obtain ls t where
    run: "aio_run sample_env sample_streams sample_aio ls t" "length ls = 5"
      "issued (ring_history ls) = [0]"
    and w: "case tasks t 0 of None \<Rightarrow> False
      | Some w \<Rightarrow> (case wt_state w of Cancelled h \<Rightarrow> True | _ \<Rightarrow> False)"
    and hist: "list_all (\<lambda>u. ledger sample_env (ring_history ls) u = None) (issued (ring_history ls))"
    by blast
  from hist have "ledger sample_env (ring_history ls) = Map.empty" by (rule ledger_empty)
  with run w show ?thesis by (fastforce split: option.splits wait_state.splits)
qed

section \<open>Property\<close>

text \<open>C7: tasks leak nothing. Over a new ring and a new manager, whatever the tasks do in whatever order,
  the Rust side keeps exactly the memory of the requests that were made and whose completion the
  dispatcher, or a task by itself, has not fetched yet. A cancelled wait, a completion nobody waited
  for, two waits for one value, a wait that fails and a dispatcher that ends add nothing to it and
  take nothing from it; when no request is outstanding, the heap is as it was before the ring.\<close>

theorem tasks_leak_nothing:
  assumes "pyo3_laws (env_pyo3 E)" "uring_laws (env_ring E) live" "stream_laws A view"
    and "create_io_ring E n cq idle single auto = Inr (ring s)" "\<forall>b \<in> dom (heap s). b < brk s"
    and "fresh_manager s" "aio_run E A s ls t" "3 * length ls \<le> 2 ^ 63"
  shows "holdings t = ledger E (ring_history ls) \<and>
    {b \<in> dom (heap t). \<not> owned_somewhere t b} = dom (heap s) \<and>
    (ledger E (ring_history ls) = Map.empty \<longrightarrow> dom (heap t) = dom (heap s))"
  using aio_run_ledger [OF assms] nothing_held [of t] by (simp add: unowned_def)

theorem tasks_leak_nothing_witness:
  "\<exists>ls t w h. aio_run sample_env sample_streams sample_aio ls t \<and> tasks t 0 = Some w \<and>
     wt_state w = Cancelled h \<and> issued (ring_history ls) = [0] \<and> holdings t = Map.empty \<and> dom (heap t) = dom (heap sample_aio)"
proof -
  obtain ls t w h where run: "aio_run sample_env sample_streams sample_aio ls t" "length ls = 5"
    and w: "tasks t 0 = Some w" "wt_state w = Cancelled h"
    and issued: "issued (ring_history ls) = [0]" and empty: "ledger sample_env (ring_history ls) = Map.empty"
    using abandoned_run by (elim exE conjE)
  have mem: "\<forall>b \<in> dom (heap sample_aio). b < brk sample_aio"
    by (simp add: sample_aio_def sample_state_def)
  have len: "3 * length ls \<le> 2 ^ 63" using run(2) by simp
  have "holdings t = Map.empty \<and> dom (heap t) = dom (heap sample_aio)"
    using empty tasks_leak_nothing [OF sample_env_laws(2,3) sample_streams_laws sample_aio_facts(2) mem
      sample_aio_facts(1) run(1) len] by simp
  with run(1) w issued show ?thesis by blast
qed

end
