(* ===== verification/Manager_Props.thy ===== *)
theory Manager_Props
  imports Manager_Sample
begin

text \<open>
  What the histories of the manager guarantee: who gets which completion, what the dispatcher
  survives, when a waiter is woken, and when it never will be.
\<close>

section \<open>Who gets a buffer\<close>

lemma distinct_submset:
  assumes "mset xs \<subseteq># mset ys" "distinct ys"
  shows "distinct xs"
proof -
  obtain zs where "mset ys = mset xs + mset zs"
    using assms(1) by (metis ex_mset mset_subset_eq_exists_conv)
  then have "mset ys = mset (xs @ zs)" by simp
  with assms(2) have "distinct (xs @ zs)" using mset_eq_imp_distinct_iff by blast
  then show ?thesis by simp
qed

definition holds_buffer :: "(stream \<rightharpoonup> stream_view) \<Rightarrow> u64 \<Rightarrow> wait_state \<Rightarrow> bool" where
  "holds_buffer V u st \<longleftrightarrow> (\<exists>ev h. ev_user_data ev = u \<and> ev_buffer ev \<noteq> None \<and>
     (st = Receiving h \<and> V h = Some (offered ev waiting_stream) \<or> st = Returned h ev))"

definition single_holders ::
  "('q \<Rightarrow> stream \<rightharpoonup> stream_view) \<Rightarrow> ('r, 'w, 'q, 'z) aio_scheme \<Rightarrow> bool" where
  "single_holders view s \<longleftrightarrow> (\<forall>u k j w w'. tasks s k = Some w \<longrightarrow> tasks s j = Some w' \<longrightarrow>
     holds_buffer (view (streams s)) u (wt_state w) \<longrightarrow>
     holds_buffer (view (streams s)) u (wt_state w') \<longrightarrow> k = j)"

lemma offered_waiting_inject [simp]:
  "offered ev waiting_stream = offered ev' waiting_stream \<longleftrightarrow> ev = ev'"
  by (metis item_simps(2) option.inject)

lemma in_buffers_of: "u \<in> set (buffers_of evs) \<longleftrightarrow> (\<exists>ev \<in> set evs. ev_user_data ev = u \<and> ev_buffer ev \<noteq> None)"
  by (auto simp: buffers_of_def)

lemma holder_fetched:
  assumes inv: "manager_inv view R s" and k: "tasks s k = Some w"
    and b: "holds_buffer (view (streams s)) u (wt_state w)"
  shows "\<exists>ev \<in> R. ev_user_data ev = u \<and> ev_buffer ev \<noteq> None"
proof -
  obtain ev h where ev: "ev_user_data ev = u" "ev_buffer ev \<noteq> None" and
    place: "wt_state w = Receiving h \<and> view (streams s) h = Some (offered ev waiting_stream) \<or>
      wt_state w = Returned h ev" using b unfolding holds_buffer_def by blast
  from place manager_inv_waitD [OF inv k] have "ev \<in> R" by auto
  with ev show ?thesis by blast
qed

text \<open>A new holder is the task registered for the buffer's own value, in a round that fetched it.\<close>

lemma holder_step:
  assumes L: "stream_laws A view" and st: "aio_step E A s l t" and inv: "manager_inv view R s"
    and k: "tasks t k = Some w" and b: "holds_buffer (view (streams t)) u (wt_state w)"
  shows "(\<exists>w0. tasks s k = Some w0 \<and> holds_buffer (view (streams s)) u (wt_state w0)) \<or>
    (\<exists>w0 h. tasks s k = Some w0 \<and> stream_of (wt_state w0) = Some h \<and>
       completion_waiters (manager s) (uint u) = Some h \<and> u \<in> set (buffers_of (fetched_by l)))"
proof (cases "tasks s k")
  case None
  from step_new_task [OF L st inv None k] obtain x where "wt_state w = entered_as x" by blast
  with b show ?thesis by (cases x) (auto simp: holds_buffer_def)
next
  case (Some w0)
  from L inv st Some show ?thesis
  proof (cases rule: step_task)
    case (receive h)
    with k b show ?thesis by (auto simp: holds_buffer_def)
  next
    case (return_ h ev x)
    with k b Some show ?thesis
      by (fastforce simp: holds_buffer_def outcome_of_def split: sum.splits if_splits)
  next
    case (cancel h)
    with k b show ?thesis by (auto simp: holds_buffer_def)
  next
    case idle
    with k b Some show ?thesis by (fastforce simp: holds_buffer_def)
  next
    case (offer evs ev h)
    have w: "w = w0" using offer(2) k by simp
    have ok: "wait_ok (view (streams s)) R (wt_user_data w0) (wt_state w0)"
      using manager_inv_waitD [OF inv Some] .
    obtain ev' h' where ev': "ev_user_data ev' = u" "ev_buffer ev' \<noteq> None" and
      place: "wt_state w0 = Receiving h' \<and> view (streams t) h' = Some (offered ev' waiting_stream) \<or>
        wt_state w0 = Returned h' ev'" using b unfolding holds_buffer_def w by blast
    show ?thesis
    proof (cases "\<exists>h. wt_state w0 = Receiving h \<and> view (streams s) h = Some waiting_stream")
      case True
      with place offer(3,6) have "ev' = ev" by auto
      with ev' first_event_SomeD [OF offer(5)] offer Some show ?thesis
        by (intro disjI2) (auto simp: in_buffers_of addressed_def)
    next
      case False
      with place ok offer(3,6) Some ev' show ?thesis
        by (intro disjI1) (auto simp: holds_buffer_def)
    qed
  qed
qed

lemma single_holders_step:
  assumes L: "stream_laws A view" and st: "aio_step E A s l t" and inv: "manager_inv view R s"
    and one: "single_holders view s"
    and new: "\<And>u ev. ev \<in> R \<Longrightarrow> ev_user_data ev = u \<Longrightarrow> ev_buffer ev \<noteq> None \<Longrightarrow>
      u \<notin> set (buffers_of (fetched_by l))"
  shows "single_holders view t"
  unfolding single_holders_def
proof (intro allI impI)
  fix u k j w w'
  assume k: "tasks t k = Some w" "holds_buffer (view (streams t)) u (wt_state w)"
    and j: "tasks t j = Some w'" "holds_buffer (view (streams t)) u (wt_state w')"
  have old: "u \<notin> set (buffers_of (fetched_by l))"
    if "tasks s i = Some v" "holds_buffer (view (streams s)) u (wt_state v)" for i v
    using holder_fetched [OF inv that] new by blast
  from holder_step [OF L st inv k] holder_step [OF L st inv j] show "k = j"
  proof (elim disjE exE conjE)
    fix v v' h h'
    assume "tasks s k = Some v" "stream_of (wt_state v) = Some h" "tasks s j = Some v'"
      "stream_of (wt_state v') = Some h'" "completion_waiters (manager s) (uint u) = Some h"
      "completion_waiters (manager s) (uint u) = Some h'"
    then show "k = j" using inv unfolding manager_inv_def tasks_ok_def by auto
  qed (use old one in \<open>auto simp: single_holders_def\<close>)
qed

lemma single_holders_run:
  assumes L: "stream_laws A view"
  shows "aio_run E A s ls t \<Longrightarrow> fresh_manager s \<Longrightarrow> distinct (buffers_of (fetched ls)) \<Longrightarrow>
    single_holders view t"
proof (induction rule: aio_run.induct)
  case (aio_nil s)
  then show ?case by (simp add: single_holders_def fresh_manager_def)
next
  case (aio_snoc s ls t l u)
  show ?case
  proof (rule single_holders_step [OF L aio_snoc(2) manager_inv_run [OF L aio_snoc(1,4)]])
    show "single_holders view t" using aio_snoc by (simp add: buffers_of_append)
    show "v \<notin> set (buffers_of (fetched_by l))"
      if "ev \<in> set (fetched ls)" "ev_user_data ev = v" "ev_buffer ev \<noteq> None" for v ev
    proof -
      have "v \<in> set (buffers_of (fetched ls))" using that unfolding in_buffers_of by blast
      then show ?thesis using aio_snoc.prems(2) by (auto simp: buffers_of_append)
    qed
  qed
qed

section \<open>Properties\<close>

text \<open>C17: dispatching meets its specification. On a manager whose registered streams can be sent on,
  the loop over the fetched events never raises, and its whole effect is: the first event for each
  registered value is offered to the stream registered under it, which takes it exactly when its
  task is waiting and is then closed for sending; each value an event was for loses its
  registration; ignored events, events nobody registered for, and all other streams are untouched.\<close>

theorem dispatch_meets_spec:
  assumes "stream_laws A view" "waiters_ok view s"
  shows "\<exists>t. dispatch_events A evs s = (Inr (), t) \<and> dispatched view evs s t \<and> waiters_ok view t"
  using assms by (rule dispatch_events_effect)

theorem dispatch_meets_spec_witness:
  "\<exists>t. dispatch_events sample_streams
     [\<lparr>ev_user_data = 0, ev_result = 0, ev_buffer = None\<rparr>] sample_aio = (Inr (), t)"
  using dispatch_meets_spec [OF sample_streams_laws, of sample_aio
      "[\<lparr>ev_user_data = 0, ev_result = 0, ev_buffer = None\<rparr>]"]
  by (auto simp: waiters_ok_def sample_aio_def)

text \<open>C10: a call of \<open>wait_for_completion\<close> only ever answers with its own completion. In every
  history of a manager, what a call returns is an event the dispatcher fetched, for the very
  \<open>user_data\<close> the call was made with and not one to be ignored; and what it raises once it was
  registered is the error of such an event.\<close>

theorem wait_gets_own_completion:
  assumes L: "stream_laws A view" and fresh: "fresh_manager s" and run: "aio_run E A s ls t"
    and k: "tasks t k = Some w"
  shows "(\<forall>h cqe. wt_state w = Returned h cqe \<longrightarrow> cqe \<in> set (fetched ls) \<and>
            uint (ev_user_data cqe) = wt_user_data w \<and> \<not> should_be_ignored cqe) \<and>
         (\<forall>h e. wt_state w = Raised (Some h) e \<longrightarrow> (\<exists>cqe \<in> set (fetched ls).
            uint (ev_user_data cqe) = wt_user_data w \<and> \<not> should_be_ignored cqe \<and>
            raise_for_cqe cqe = Inl e))"
proof -
  have ok: "wait_ok (view (streams t)) (set (fetched ls)) (wt_user_data w) (wt_state w)"
    by (rule manager_inv_waitD [OF manager_inv_run [OF L run fresh] k])
  then show ?thesis by (auto simp: addressed_def)
qed

theorem wait_gets_own_completion_witness:
  "\<exists>ls t w h ev. aio_run sample_env sample_streams sample_aio ls t \<and> tasks t 0 = Some w \<and>
     wt_state w = Returned h ev \<and> ev \<in> set (fetched ls) \<and> uint (ev_user_data ev) = wt_user_data w"
proof -
  obtain ls t w h ev where run: "aio_run sample_env sample_streams sample_aio ls t"
    and w: "tasks t 0 = Some w" "wt_state w = Returned h ev" using woken_run by blast
  from wait_gets_own_completion [OF sample_streams_laws sample_aio_facts(1) run w(1)] w run
  show ?thesis by blast
qed

text \<open>C18: the dispatcher survives its clients. Whatever tasks do - register twice, cancel, never
  wait - a round of the dispatcher fails only because the event descriptor could not be read or the
  ring has been closed, in both cases before it fetched anything; every other round goes through
  all its events and the dispatcher keeps running.\<close>

theorem dispatcher_survives:
  assumes L: "stream_laws A view" and fresh: "fresh_manager s" and run: "aio_run E A s ls t"
    and step: "aio_step E A t (Round x) u"
  shows "(\<exists>evs. x = Inr evs \<and> dispatcher u = Running) \<or>
    x = Inl (ValueError RingClosed) \<and> the_io_uring (ring u) = None \<and> tasks u = tasks t \<or>
    (\<exists>errno. x = Inl (OSError (Some errno)) \<and> ring u = ring t \<and> tasks u = tasks t)"
  using step
proof cases
  case (aio_round v)
  have ok: "waiters_ok view t" using manager_inv_run [OF L run fresh] by (simp add: manager_inv_def)
  from L ok aio_round(3) show ?thesis
  proof (cases rule: dispatch_roundE)
    case (read_failed errno)
    with os_read_call_client [OF read_failed(3)] aio_more_fields(3) [OF read_failed(2)]
    show ?thesis by (simp add: aio_round(1) same_ring_def)
  next
    case (closed bs)
    with aio_more_fields(3) [OF closed(2)] show ?thesis by (simp add: aio_round(1))
  next
    case (served bs s1 evs s2)
    then have "dispatcher v = dispatcher t"
      using aio_more_fields(4) [OF served(5)] by (auto simp: dispatched_def)
    with served(1) show ?thesis by (simp add: aio_round(1))
  qed
qed

theorem dispatcher_survives_witness:
  "\<exists>(t :: sample_loop) evs u. aio_step sample_env sample_streams t (Round (Inr evs)) u \<and> dispatcher u = Running"
proof -
  obtain ls t ev where run: "aio_run sample_env sample_streams sample_aio ls t"
    and e: "next_event 0 t = Some ev" using waiting_run by blast
  obtain evs z where st: "aio_step sample_env sample_streams t (Round (Inr evs)) z"
    using next_event_round [OF e] by blast
  from dispatcher_survives [OF sample_streams_laws sample_aio_facts(1) run st] st
  show ?thesis by auto
qed

text \<open>C11: no lost wake-up for a task that waits. If a task is blocked in \<open>wait_for_completion\<close> and
  registered for its value when a round fetches an event for it, then from the moment the round
  ends, whatever else happens, the call can always take its next step and that step ends it with
  the first such event: the call returns that event, or raises its error when asked to; and in
  every later state it is ready to do so, has done so, or was cancelled.\<close>

theorem waiting_task_woken:
  assumes L: "stream_laws A view" and fresh: "fresh_manager s" and run: "aio_run E A s ls t"
    and k: "tasks t k = Some w" "wt_state w = Receiving h"
    and reg: "completion_waiters (manager t) (wt_user_data w) = Some h"
    and step: "aio_step E A t (Round (Inr evs)) u"
    and ev: "find (\<lambda>e. \<not> should_be_ignored e \<and> uint (ev_user_data e) = wt_user_data w) evs = Some ev"
    and later: "aio_run E A u ls' v"
  shows "finished k ev v \<or> (\<exists>w' h' v'. tasks v k = Some w' \<and> wt_state w' = Receiving h' \<and>
    aio_step E A v (Wait_Return k) v' \<and>
    tasks v' k = Some (w'\<lparr>wt_state := returned_as h' (outcome_of (wt_autoraise w') ev)\<rparr>))"
proof -
  have first: "first_event evs (wt_user_data w) = Some ev"
    using ev by (simp add: first_event_def addressed_def [abs_def])
  note inv = manager_inv_run [OF L run fresh]
  have "given view k ev u" by (rule round_gives [OF L inv step k reg first])
  then have "given view k ev v \<or> finished k ev v"
    by (rule given_run [OF L later manager_inv_step [OF L step inv]])
  then show ?thesis using given_ends [OF L] by blast
qed

theorem waiting_task_woken_witness:
  "\<exists>(t :: sample_loop) evs u ev. aio_step sample_env sample_streams t (Round (Inr evs)) u \<and>
     (finished 0 ev u \<or> (\<exists>w' h' v'. tasks u 0 = Some w' \<and> wt_state w' = Receiving h' \<and>
        aio_step sample_env sample_streams u (Wait_Return 0) v' \<and>
        tasks v' 0 = Some (w'\<lparr>wt_state := returned_as h' (outcome_of (wt_autoraise w') ev)\<rparr>)))"
proof -
  obtain ls t w h ev where run: "aio_run sample_env sample_streams sample_aio ls t"
    and w: "tasks t 0 = Some w" "wt_state w = Receiving h" "wt_user_data w = 0"
      "completion_waiters (manager t) 0 = Some h"
    and e: "next_event 0 t = Some ev" using waiting_run by blast
  obtain evs z where st: "aio_step sample_env sample_streams t (Round (Inr evs)) z"
    and f: "find (\<lambda>e. \<not> should_be_ignored e \<and> uint (ev_user_data e) = 0) evs = Some ev"
    using next_event_round [OF e] by blast
  from waiting_task_woken [OF sample_streams_laws sample_aio_facts(1) run w(1,2) _ st _ aio_nil, of ev] w f
  have "finished 0 ev z \<or> (\<exists>w' h' v'. tasks z 0 = Some w' \<and> wt_state w' = Receiving h' \<and>
        aio_step sample_env sample_streams z (Wait_Return 0) v' \<and>
        tasks v' 0 = Some (w'\<lparr>wt_state := returned_as h' (outcome_of (wt_autoraise w') ev)\<rparr>))" by simp
  with st show ?thesis by blast
qed

text \<open>C22: a completion that comes too early is lost, and its waiter hangs. If a round fetches the
  event for a registered call before the call's task waits on its stream, the event is dropped with
  the registration, and from then on the call never returns and never raises: in every later state
  it is suspended with nothing received, unless it was cancelled.\<close>

theorem early_completion_strands:
  assumes L: "stream_laws A view" and fresh: "fresh_manager s" and run: "aio_run E A s ls t"
    and k: "tasks t k = Some w" "wt_state w = Entered h"
    and reg: "completion_waiters (manager t) (wt_user_data w) = Some h"
    and step: "aio_step E A t (Round (Inr evs)) u"
    and ev: "ev \<in> set evs" "\<not> should_be_ignored ev" "uint (ev_user_data ev) = wt_user_data w"
    and later: "aio_run E A u ls' v"
  shows "\<exists>w' h'. tasks v k = Some w' \<and> (wt_state w' = Entered h' \<or>
    wt_state w' = Receiving h' \<and> sm_received A h' (streams v) = None \<or> wt_state w' = Cancelled h')"
proof -
  note inv = manager_inv_run [OF L run fresh]
  have "find (addressed (wt_user_data w)) evs \<noteq> None"
    using ev by (auto simp: find_None_iff addressed_def)
  then have first: "first_event evs (wt_user_data w) \<noteq> None" by (simp add: first_event_def)
  from L inv step k(1) have same: "tasks u k = Some w"
    by (cases rule: step_task) simp_all
  have out: "h \<notin> ran (completion_waiters (manager u))"
    by (rule round_unregisters [OF L inv step reg first])
  from same k(2) out have "stranded view k u" by (simp add: stranded_def)
  then show ?thesis
    using lost_run [OF L later manager_inv_step [OF L step inv]] by (intro lost_outcome [OF L]) blast
qed

theorem early_completion_strands_witness:
  "\<exists>(t :: sample_loop) evs u w' h'. aio_step sample_env sample_streams t (Round (Inr evs)) u \<and> tasks u 0 = Some w' \<and>
     (wt_state w' = Entered h' \<or> wt_state w' = Receiving h' \<and>
        sm_received sample_streams h' (streams u) = None \<or> wt_state w' = Cancelled h')"
proof -
  obtain ls t w h ev where run: "aio_run sample_env sample_streams sample_aio ls t"
    and w: "tasks t 0 = Some w" "wt_state w = Entered h" "wt_user_data w = 0"
      "completion_waiters (manager t) 0 = Some h"
    and e: "next_event 0 t = Some ev" using too_early_run by blast
  obtain evs z where st: "aio_step sample_env sample_streams t (Round (Inr evs)) z"
    and f: "find (\<lambda>e. \<not> should_be_ignored e \<and> uint (ev_user_data e) = 0) evs = Some ev"
    using next_event_round [OF e] by blast
  then have "ev \<in> set evs" "\<not> should_be_ignored ev" "uint (ev_user_data ev) = 0"
    by (auto simp: find_Some_iff)
  with early_completion_strands [OF sample_streams_laws sample_aio_facts(1) run w(1,2) _ st _ _ _ aio_nil,
      of ev] w st show ?thesis by fastforce
qed

text \<open>C23: the second of two calls for the same value takes the first one's place. Once
  \<open>wait_for_completion\<close> has registered again for a value that a call which has received nothing is
  registered for, that earlier call never returns and never raises, even if it had been waiting
  properly.\<close>

theorem second_wait_strands_first:
  assumes L: "stream_laws A view" and fresh: "fresh_manager s" and run: "aio_run E A s ls t"
    and k: "tasks t k = Some w" "wt_state w = Entered h \<or> wt_state w = Receiving h"
    and reg: "completion_waiters (manager t) (wt_user_data w) = Some h"
    and step: "aio_step E A t (Wait_Start j (wt_user_data w) b) u"
    and j: "tasks u j = Some w2" "wt_state w2 = Entered g"
    and later: "aio_run E A u ls' v"
  shows "\<exists>w' h'. tasks v k = Some w' \<and> (wt_state w' = Entered h' \<or>
    wt_state w' = Receiving h' \<and> sm_received A h' (streams v) = None \<or> wt_state w' = Cancelled h')"
proof -
  note inv = manager_inv_run [OF L run fresh]
  have "stranded view k u" using step
  proof cases
    case (aio_start x t')
    from L aio_start(3) show ?thesis
    proof (cases rule: wait_enter_effect)
      case (failed e)
      have "tasks u j = Some \<lparr>wt_user_data = wt_user_data w, wt_autoraise = b, wt_state = Raised None e\<rparr>"
        by (simp add: aio_start(1) set_task_def failed(1))
      with j show ?thesis by auto
    next
      case (registered h')
      have kj: "k \<noteq> j" using k(1) aio_start(2) by auto
      have "h' \<noteq> h" using registered(2) wait_ok_stream [OF manager_inv_waitD [OF inv k(1)]] k(2) by auto
      moreover have "inj_on (completion_waiters (manager t)) (dom (completion_waiters (manager t)))"
        using inv by (simp add: manager_inv_def waiters_ok_def)
      ultimately have "h \<notin> ran (completion_waiters (manager u))"
        using reg unfolding aio_start(1) set_task_def inj_on_def ran_def
        by (auto simp: registered split: if_splits) (metis domI)
      with k kj registered_waiting [OF inv k(1) _ reg] show ?thesis
        unfolding stranded_def using \<open>h' \<noteq> h\<close>
        by (intro exI [of _ w] exI [of _ h]) (auto simp: aio_start(1) set_task_def registered)
    qed
  qed
  then show ?thesis
    using lost_run [OF L later manager_inv_step [OF L step inv]] by (intro lost_outcome [OF L]) blast
qed

theorem second_wait_strands_first_witness:
  "\<exists>(t :: sample_loop) u w' h'. aio_step sample_env sample_streams t (Wait_Start 1 0 True) u \<and> tasks u 0 = Some w' \<and>
     (wt_state w' = Entered h' \<or> wt_state w' = Receiving h' \<and>
        sm_received sample_streams h' (streams u) = None \<or> wt_state w' = Cancelled h')"
proof -
  obtain ls t w h u w2 g where run: "aio_run sample_env sample_streams sample_aio ls t"
    and w: "tasks t 0 = Some w" "wt_state w = Receiving h" "wt_user_data w = 0"
      "completion_waiters (manager t) 0 = Some h"
    and st: "aio_step sample_env sample_streams t (Wait_Start 1 0 True) u"
    and w2: "tasks u 1 = Some w2" "wt_state w2 = Entered g" using second_wait_run by blast
  from second_wait_strands_first [OF sample_streams_laws sample_aio_facts(1) run w(1) _ _ _ w2 aio_nil,
      of h True] w st show ?thesis by fastforce
qed

text \<open>C24: cancelling a wait harms nobody. The cancelled call stays cancelled; when its completion, or
  any other, is fetched later, the round succeeds, the ring has released the operation's memory,
  and no registration for it is left behind.\<close>

theorem cancelled_wait_is_cleaned:
  assumes L: "stream_laws A view" and fresh: "fresh_manager s" and run: "aio_run E A s ls t"
    and cancel: "aio_step E A t (Wait_Cancel k) u" and later: "aio_run E A u ls' v"
    and step: "aio_step E A v (Round (Inr evs)) z" and ev: "ev \<in> set evs" "\<not> should_be_ignored ev"
  shows "(\<exists>w h. tasks z k = Some w \<and> wt_state w = Cancelled h) \<and> dispatcher z = Running \<and>
    owned_data (ring z) (ev_user_data ev) = None \<and>
    completion_waiters (manager z) (uint (ev_user_data ev)) = None"
proof -
  note inv_t = manager_inv_run [OF L run fresh]
  note inv_v = manager_inv_runs [OF L later manager_inv_step [OF L cancel inv_t]]
  have "cancelled k u" using cancel by cases (auto simp: cancelled_def set_task_def)
  then have "cancelled k v" using cancelled_run [OF L later manager_inv_step [OF L cancel inv_t]] by simp
  then have "cancelled k z" by (rule cancelled_step [OF L step inv_v])
  then show ?thesis
    using round_cleans [OF L inv_v step ev] unfolding cancelled_def by simp
qed

theorem cancelled_wait_is_cleaned_witness:
  "\<exists>(u :: sample_loop) evs z w h. aio_step sample_env sample_streams u (Round (Inr evs)) z \<and> evs \<noteq> [] \<and>
     tasks z 0 = Some w \<and> wt_state w = Cancelled h \<and> dispatcher z = Running"
proof -
  obtain ls t u ev where run: "aio_run sample_env sample_streams sample_aio ls t"
    and cancel: "aio_step sample_env sample_streams t (Wait_Cancel 0) u"
    and e: "next_event 0 u = Some ev" using cancel_run by blast
  obtain evs z where st: "aio_step sample_env sample_streams u (Round (Inr evs)) z"
    and f: "find (\<lambda>e. \<not> should_be_ignored e \<and> uint (ev_user_data e) = 0) evs = Some ev"
    using next_event_round [OF e] by blast
  then have ev: "ev \<in> set evs" "\<not> should_be_ignored ev" by (auto simp: find_Some_iff)
  from cancelled_wait_is_cleaned [OF sample_streams_laws sample_aio_facts(1) run cancel aio_nil st ev]
    st ev(1) show ?thesis by (metis empty_iff list.set(1))
qed

text \<open>C14: the bytes of an operation reach at most one task. Over a new ring and a new manager, two
  calls of \<open>wait_for_completion\<close> never both return the buffer of the same submission, however the
  tasks share values, and although the ring reports per event and not per caller.\<close>

theorem one_task_per_buffer:
  assumes L: "stream_laws A view" and ring: "create_io_ring E n cq idle single auto = Inr (ring s)"
    and fresh: "fresh_manager s" and run: "aio_run E A s ls t" and len: "3 * length ls \<le> 2 ^ 63"
    and k: "tasks t k = Some w" "wt_state w = Returned h ev" "ev_buffer ev = Some bs"
    and j: "tasks t j = Some w'" "wt_state w' = Returned h' ev'" "ev_buffer ev' = Some bs'"
    and same: "ev_user_data ev = ev_user_data ev'"
  shows "k = j"
proof -
  obtain cs where cs: "api_run E s cs t" "length cs \<le> 3 * length ls"
    "mset (buffers_of (fetched ls)) \<subseteq># mset (delivered cs)"
    using aio_run_calls [OF L fresh run fresh] by blast
  then have "distinct (delivered cs)"
    using run_facts [OF cs(1) create_fields [OF ring]] len by simp
  with cs(3) have "distinct (buffers_of (fetched ls))" by (rule distinct_submset)
  from single_holders_run [OF L run fresh this] k j same show ?thesis
    unfolding single_holders_def holds_buffer_def by (metis option.distinct(1))
qed

theorem one_task_per_buffer_witness:
  "\<exists>ls t w h ev. aio_run sample_env sample_streams sample_aio ls t \<and> tasks t 0 = Some w \<and>
     wt_state w = Returned h ev \<and> (\<forall>j w' h' ev' bs'. tasks t j = Some w' \<longrightarrow>
        wt_state w' = Returned h' ev' \<longrightarrow> ev_buffer ev' = Some bs' \<longrightarrow>
        ev_user_data ev = ev_user_data ev' \<longrightarrow> j = 0)"
proof -
  obtain ls t w h ev where run: "aio_run sample_env sample_streams sample_aio ls t" "length ls = 5"
    and w: "tasks t 0 = Some w" "wt_state w = Returned h ev" "ev_buffer ev = Some [42, 42, 42]"
    using woken_run by blast
  note one = one_task_per_buffer [OF sample_streams_laws sample_aio_facts(2,1) run(1) _ w]
  show ?thesis
    by (intro exI [of _ ls] exI [of _ t] exI [of _ w] exI [of _ h] exI [of _ ev])
      (use run w one in auto)
qed

text \<open>C33: with forced submissions a wait never forgets to submit. When \<open>wait_for_completion\<close> gets as
  far as waiting, everything in the submission queue has been handed to the kernel by a successful
  submit before the call was registered; when that submit fails or the ring is closed, the call
  raises and leaves neither a registration nor a stream behind.\<close>

theorem forced_wait_submits:
  assumes "force_submissions (manager s)" "wait_enter E A u s = (x, t)"
  shows "(\<forall>h. x = Inr h \<longrightarrow> (\<exists>r n r' m'. the_io_uring (ring s) = Some r \<and>
            ur_submit (env_ring E) r (heap s) = (Inr n, r', m') \<and>
            the_io_uring (ring t) = Some r' \<and> heap t = m')) \<and>
         (\<forall>e. x = Inl e \<longrightarrow> manager t = manager s \<and> streams t = streams s \<and>
            (e = ValueError RingClosed \<or> (\<exists>errno. e = OSError (Some errno))))"
proof -
  obtain y s1 where y: "io_submit E s = (y, s1)" by (metis prod.exhaust)
  then have more: "py.more s1 = py.more s" by (rule framesD [OF frames_calls(1)])
  note same = aio_more_fields [OF more]
  show ?thesis
  proof (cases y)
    case (Inl e)
    with assms y have "x = Inl e" "t = s1" by (simp_all add: wait_enter_def bindP_app)
    with y Inl show ?thesis
      by (auto simp: same io_submit_def submit_def split: option.splits prod.splits sum.splits)
  next
    case (Inr n)
    then obtain r r' m' where "the_io_uring (ring s) = Some r"
      "ur_submit (env_ring E) r (heap s) = (Inr n, r', m')"
      "the_io_uring (ring s1) = Some r'" "heap s1 = m'"
      using y by (auto simp: io_submit_def submit_def split: option.splits prod.splits sum.splits)
    then show ?thesis
      using assms y Inr
      by (auto simp: wait_enter_def bindP_app create_memory_object_stream_def split: prod.splits)
  qed
qed

theorem forced_wait_submits_witness:
  "\<exists>h t r'. wait_enter sample_env sample_streams 0 sample_aio = (Inr h, t) \<and>
     the_io_uring (ring t) = Some r' \<and> heap t = heap sample_aio"
proof -
  have "case wait_enter sample_env sample_streams 0 sample_aio of (Inr _, _) \<Rightarrow> True | _ \<Rightarrow> False"
    by code_simp
  then obtain h t where run: "wait_enter sample_env sample_streams 0 sample_aio = (Inr h, t)"
    by (auto split: prod.splits sum.splits)
  have "force_submissions (manager sample_aio)" by (simp add: sample_aio_def)
  from forced_wait_submits [OF this run] run show ?thesis
    by (auto simp: sample_env_def sim_uring_def sim_submit_def sample_aio_def sample_state_def)
qed

end
