(* ===== verification/Sidecar.thy ===== *)
theory Sidecar
  imports Manager_Props Manager_Ledger
begin

text \<open>
  \<^verbatim>\<open>aio/sidecar.py\<close> and \<^verbatim>\<open>aio/trio.py\<close>: the context manager that gives an event loop a ring with
  a manager, and the instrument through which \<^verbatim>\<open>trio\<close> submits before it waits.
\<close>

section \<open>The event loop\<close>

text \<open>
  What the event loop libraries provide, a parameter: the name of the running one (\<open>sniffio\<close>
  raises when there is none), the installed instruments of \<^verbatim>\<open>trio\<close> (or, without it, the two
  functions that do nothing), and what leaving a task group makes of the outcome of its body.
  \<open>'i\<close> is the state of the installed instruments.
\<close>

type_synonym instrument = href

record 'i loop_api =
  lib_name :: "exn + string"
  lp_add_instrument :: "instrument \<Rightarrow> 'i \<Rightarrow> 'i"
  lp_remove_instrument :: "instrument \<Rightarrow> 'i \<Rightarrow> (exn + unit) \<times> 'i"
  group_exit :: "exn + unit \<Rightarrow> exn + unit"

text \<open>
  Documented: an instrument stays installed until it is removed, removing one that is not
  installed is a \<open>KeyError\<close>, and a task group does not swallow an exception of its body.
\<close>

definition loop_laws :: "'i loop_api \<Rightarrow> ('i \<Rightarrow> instrument set) \<Rightarrow> bool" where
  "loop_laws L installed \<longleftrightarrow>
     (\<forall>i x. installed (lp_add_instrument L i x) = insert i (installed x)) \<and>
     (\<forall>i x. if i \<in> installed x
        then \<exists>x'. lp_remove_instrument L i x = (Inr (), x') \<and> installed x' = installed x - {i}
        else lp_remove_instrument L i x = (Inl KeyError, x)) \<and>
     (\<forall>r. isl r \<longrightarrow> isl (group_exit L r))"

record ('r, 'w, 'q, 'i) sidecar = "('r, 'w, 'q) aio" +
  instruments :: 'i

section \<open>The instrument\<close>

text \<open>The object is an identity for \<^verbatim>\<open>trio\<close>, which keys instruments by \<open>id\<close>.\<close>

definition new_instrument :: "(('r, 'w, 'z) py_scheme, instrument) prog" where
  "new_instrument = (\<lambda>s. (Inr (next_href s), s\<lparr>next_href := Suc (next_href s)\<rparr>))"

definition before_io_wait :: "('r, 'w) env \<Rightarrow> (('r, 'w, 'z) py_scheme, unit) prog" where
  "before_io_wait E = bindP (io_submit E) (\<lambda>_. ret ())"

section \<open>\<open>start_uring_sidecar\<close>\<close>

definition add_instrument ::
  "'i loop_api \<Rightarrow> instrument \<Rightarrow> (('r, 'w, 'q, 'i, 'z) sidecar_scheme, unit) prog" where
  "add_instrument L i = modP (\<lambda>s. s\<lparr>instruments := lp_add_instrument L i (instruments s)\<rparr>)"

definition remove_instrument ::
  "'i loop_api \<Rightarrow> instrument \<Rightarrow> (('r, 'w, 'q, 'i, 'z) sidecar_scheme, unit) prog" where
  "remove_instrument L i = (\<lambda>s. case lp_remove_instrument L i (instruments s) of
     (x, y) \<Rightarrow> (x, s\<lparr>instruments := y\<rparr>))"

text \<open>\<open>try: m finally: f\<close> where \<open>f\<close> may raise, and then its exception is the outcome.\<close>

definition try_finally_raising :: "('s, 'a) prog \<Rightarrow> ('s, unit) prog \<Rightarrow> ('s, 'a) prog" where
  "try_finally_raising m f = (\<lambda>s. case m s of (x, t) \<Rightarrow>
     (case f t of (Inl e, u) \<Rightarrow> (Inl e, u) | (Inr _, u) \<Rightarrow> (x, u)))"

text \<open>
  Leaving the task group waits for the dispatcher, which has been cancelled. (A dispatcher that was
  already woken finishes its round first; it touches nothing the cleanup touches, so that round is
  taken as the last step of the block.)
\<close>

definition in_task_group ::
  "'i loop_api \<Rightarrow> (('r, 'w, 'q, 'z) aio_scheme, unit) prog \<Rightarrow> (('r, 'w, 'q, 'z) aio_scheme, unit) prog" where
  "in_task_group L m = (\<lambda>s. case m s of (x, t) \<Rightarrow>
     (group_exit L x, t\<lparr>dispatcher := (if dispatcher t = Running then Stopped else dispatcher t)\<rparr>))"

text \<open>The constructor call and \<open>start_soon\<close>.\<close>

definition start_manager :: "int \<Rightarrow> bool \<Rightarrow> (('r, 'w, 'q, 'z) aio_scheme, unit) prog" where
  "start_manager fd force = modP (\<lambda>s.
     s\<lparr>manager := \<lparr>efd = fd, force_submissions = force, completion_waiters = Map.empty\<rparr>,
       tasks := Map.empty, dispatcher := Running\<rparr>)"

definition sidecar_instrument ::
  "'i loop_api \<Rightarrow> string \<Rightarrow> (('r, 'w, 'q, 'i, 'z) sidecar_scheme, instrument option) prog" where
  "sidecar_instrument L lib =
     (if lib = ''trio''
      then bindP new_instrument (\<lambda>i. bindP (add_instrument L i) (\<lambda>_. ret (Some i)))
      else ret None)"

definition sidecar_group ::
  "('r, 'w) env \<Rightarrow> 'i loop_api \<Rightarrow> string \<Rightarrow> instrument option \<Rightarrow> bool \<Rightarrow>
     (('r, 'w, 'q, 'i, 'z) sidecar_scheme, unit) prog \<Rightarrow>
     (('r, 'w, 'q, 'i, 'z) sidecar_scheme, unit) prog" where
  "sidecar_group E L lib instr force body =
     in_task_group L (
       bindP (os_eventfd_call E 0 EFD_CLOEXEC) (\<lambda>fd.
       bindP (io_register_eventfd E (Some fd)) (\<lambda>_.
       bindP (start_manager fd force) (\<lambda>_.
       try_finally_raising body
         (case instr of Some i \<Rightarrow> remove_instrument L i | None \<Rightarrow> ret ())))))"

text \<open>\<open>body\<close> is the block of the \<open>async with\<close>. The first five arguments are not used.\<close>

definition start_uring_sidecar ::
  "('r, 'w) env \<Rightarrow> 'i loop_api \<Rightarrow> int \<Rightarrow> int option \<Rightarrow> int option \<Rightarrow> bool \<Rightarrow> bool \<Rightarrow> bool \<Rightarrow>
     (('r, 'w, 'q, 'i, 'z) sidecar_scheme, unit) prog \<Rightarrow>
     (('r, 'w, 'q, 'i, 'z) sidecar_scheme, unit) prog" where
  "start_uring_sidecar E L entries cq_size sqpoll_idle_ms single_issuer auto force body =
     make_io_ring E 256 None None True True (
       bindP (liftP (lib_name L)) (\<lambda>lib.
       bindP (sidecar_instrument L lib) (\<lambda>instr.
       let force = (if lib = ''asyncio'' then True else force)
       in sidecar_group E L lib instr force body)))"

section \<open>How a sidecar runs\<close>

text \<open>The state in which the block starts, given the ring the kernel made.\<close>

definition body_ready :: "('r, 'w) env \<Rightarrow> 'r the_io_ring \<Rightarrow> ('r, 'w, 'q, 'z) aio_scheme \<Rightarrow> bool" where
  "body_ready E g u \<longleftrightarrow> fresh_manager u \<and>
     (\<exists>fd r r'. the_io_uring g = Some r \<and>
        ur_register_eventfd (env_ring E) fd r = (Inr (), r') \<and> sint fd = efd (manager u) \<and>
        ring u = g\<lparr>the_io_uring := Some r'\<rparr>)"

lemma ring_kept: "the_io_uring g = Some r \<Longrightarrow> g\<lparr>the_io_uring := Some r\<rparr> = g"
  by (cases g) simp

text \<open>Making the event descriptor and registering it.\<close>

lemma eventfd_registered:
  fixes s :: "('r, 'w, 'z) py_scheme"
  assumes P: "pyo3_laws (env_pyo3 E)" and r: "the_io_uring (ring s) = Some r"
  defines "fs \<equiv> os_eventfd (env_os E) 0 EFD_CLOEXEC (files s)"
  obtains (failed) e r' where
      "\<And>f :: int \<Rightarrow> (('r, 'w, 'z) py_scheme, unit) prog.
         bindP (os_eventfd_call E 0 EFD_CLOEXEC) (\<lambda>fd. bindP (io_register_eventfd E (Some fd)) (\<lambda>_. f fd)) s =
         (Inl e, s\<lparr>files := snd fs, ring := (ring s)\<lparr>the_io_uring := Some r'\<rparr>\<rparr>)"
  | (registered) fd r' where
      "\<And>f :: int \<Rightarrow> (('r, 'w, 'z) py_scheme, unit) prog.
         bindP (os_eventfd_call E 0 EFD_CLOEXEC) (\<lambda>fd. bindP (io_register_eventfd E (Some fd)) (\<lambda>_. f fd)) s =
         f fd (s\<lparr>files := snd fs, ring := (ring s)\<lparr>the_io_uring := Some r'\<rparr>\<rparr>)"
      "ur_register_eventfd (env_ring E) (word_of_int fd) r = (Inr (), r')"
      "sint (word_of_int fd :: i32) = fd"
proof -
  have i32: "py_i32 (env_pyo3 E) k =
      (if - (2 ^ 31) \<le> k \<and> k < 2 ^ 31 then Inr (word_of_int k) else Inl OverflowError)" for k
    using P by (simp add: pyo3_laws_def converts_signed_def)
  obtain z w where ev: "os_eventfd (env_os E) 0 EFD_CLOEXEC (files s) = (z, w)" by (metis prod.exhaust)
  note call = bindP_app os_eventfd_call_def fs_def ev
  show ?thesis
  proof (cases z)
    case (Inl errno)
    show ?thesis by (rule failed [of _ r]) (simp add: call Inl ring_kept [OF r])
  next
    case (Inr fd)
    show ?thesis
    proof (cases "- (2 ^ 31) \<le> fd \<and> fd < 2 ^ 31")
      case False
      then have "py_i32 (env_pyo3 E) fd = Inl OverflowError" using i32 by auto
      then show ?thesis
        by (intro failed [of _ r]) (simp add: call Inr io_register_eventfd_def ring_kept [OF r])
    next
      case True
      then have conv: "py_i32 (env_pyo3 E) fd = Inr (word_of_int fd)" "sint (word_of_int fd :: i32) = fd"
        using i32 by (auto simp: signed_of_int signed_take_bit_int_eq_self)
      obtain q r' where reg: "ur_register_eventfd (env_ring E) (word_of_int fd) r = (q, r')"
        by (metis prod.exhaust)
      note call = call Inr io_register_eventfd_def conv(1) register_eventfd_def r reg
      show ?thesis
      proof (cases q)
        case (Inl err)
        show ?thesis by (rule failed [of _ r']) (simp add: call Inl)
      next
        case (Inr u)
        with reg conv(2) show ?thesis by (intro registered [of fd r']) (simp_all add: call Inr)
      qed
    qed
  qed
qed

lemma sidecar_group_run:
  fixes s :: "('r, 'w, 'q, 'i, 'z) sidecar_scheme"
  assumes P: "pyo3_laws (env_pyo3 E)" and run: "sidecar_group E L lib instr force body s = (x, t)"
    and r: "the_io_uring (ring s) = Some r"
  obtains (unstarted) e w fs where "x = group_exit L (Inl e)" "ring t = (ring s)\<lparr>the_io_uring := Some w\<rparr>"
      "instruments t = instruments s" "heap t = heap s" "brk t = brk s"
      "os_eventfd (env_os E) 0 EFD_CLOEXEC (files s) = fs" "files t = snd fs"
      "\<And>body'. sidecar_group E L lib instr force body' s = (x, t)"
  | (started) u y v where "body_ready E (ring s) u" "force_submissions (manager u) = force"
      "instruments u = instruments s" "heap u = heap s" "brk u = brk s" "body u = (y, v)"
      "streams u = streams s" "files u = snd (os_eventfd (env_os E) 0 EFD_CLOEXEC (files s))"
      "(case (case instr of Some i \<Rightarrow> remove_instrument L i | None \<Rightarrow> ret ()) v of
          (Inl e, v') \<Rightarrow> x = group_exit L (Inl e) \<and>
            t = v'\<lparr>dispatcher := (if dispatcher v' = Running then Stopped else dispatcher v')\<rparr>
        | (Inr _, v') \<Rightarrow> x = group_exit L y \<and>
            t = v'\<lparr>dispatcher := (if dispatcher v' = Running then Stopped else dispatcher v')\<rparr>)"
proof -
  let ?fs = "os_eventfd (env_os E) 0 EFD_CLOEXEC (files s)"
  define stop :: "('r, 'w, 'q, 'i, 'z) sidecar_scheme \<Rightarrow> ('r, 'w, 'q, 'i, 'z) sidecar_scheme" where
    "stop v = v\<lparr>dispatcher := (if dispatcher v = Running then Stopped else dispatcher v)\<rparr>" for v
  from P r show ?thesis
  proof (cases rule: eventfd_registered)
    case (failed e r')
    let ?s1 = "s\<lparr>files := snd ?fs, ring := (ring s)\<lparr>the_io_uring := Some r'\<rparr>\<rparr>"
    have go: "sidecar_group E L lib instr force b s = (group_exit L (Inl e), stop ?s1)" for b
      by (simp add: sidecar_group_def in_task_group_def failed stop_def)
    from run go have xt: "x = group_exit L (Inl e)" "t = stop ?s1" by simp_all
    show ?thesis by (rule unstarted [of e r' ?fs]) (simp_all add: xt go stop_def)
  next
    case (registered fd r')
    let ?u = "s\<lparr>files := snd ?fs, ring := (ring s)\<lparr>the_io_uring := Some r'\<rparr>,
      manager := \<lparr>efd = fd, force_submissions = force, completion_waiters = Map.empty\<rparr>,
      tasks := Map.empty, dispatcher := Running\<rparr>"
    obtain y v where b: "body ?u = (y, v)" by (metis prod.exhaust)
    have ready: "body_ready E (ring s) ?u" unfolding body_ready_def using r registered(2,3)
      by (intro conjI exI [of _ "word_of_int fd"] exI [of _ r] exI [of _ r']) (simp_all add: fresh_manager_def)
    obtain c v' where h: "(case instr of Some i \<Rightarrow> remove_instrument L i | None \<Rightarrow> ret ()) v = (c, v')"
      by (metis prod.exhaust)
    have "(x, t) = (case c of Inl e \<Rightarrow> (group_exit L (Inl e), stop v') | Inr _ \<Rightarrow> (group_exit L y, stop v'))"
      by (cases c) (use run in \<open>simp_all add: sidecar_group_def in_task_group_def registered(1)
          bindP_app [of "modP _"] start_manager_def try_finally_raising_def b h stop_def\<close>)
    then show ?thesis
      by (intro started [OF ready _ _ _ _ b]) (simp_all add: h stop_def split: sum.splits)
  qed
qed

text \<open>The whole context manager, by what happens to its ring.\<close>

lemma sidecar_run:
  fixes s :: "('r, 'w, 'q, 'i, 'z) sidecar_scheme"
  assumes P: "pyo3_laws (env_pyo3 E)"
    and run: "start_uring_sidecar E L entries cq idle single auto force body s = (x, t)"
  obtains (no_ring) e where "create_io_ring E 256 0 0 True True = Inl e" "x = Inl e" "t = s"
  | (no_loop) g e where "create_io_ring E 256 0 0 True True = Inr g" "lib_name L = Inl e" "x = Inl e"
      "t = snd (close_ring (s\<lparr>ring := g\<rparr>))"
  | (grouped) g lib instr s1 t1 where "create_io_ring E 256 0 0 True True = Inr g" "lib_name L = Inr lib"
      "sidecar_instrument L lib (s\<lparr>ring := g\<rparr>) = (Inr instr, s1)" "ring s1 = g"
      "sidecar_group E L lib instr (lib = ''asyncio'' \<or> force) body s1 = (x, t1)"
      "t = snd (close_ring t1)" "heap s1 = heap s" "brk s1 = brk s" "files s1 = files s"
      "streams s1 = streams s"
      "\<And>body'. start_uring_sidecar E L entries cq idle single auto force body' s =
         (case sidecar_group E L lib instr (lib = ''asyncio'' \<or> force) body' s1 of
            (y, u) \<Rightarrow> (y, snd (close_ring u)))"
proof (cases "create_io_ring E 256 0 0 True True")
  case (Inl e)
  with run no_ring show ?thesis
    by (simp add: start_uring_sidecar_def make_io_ring_eq [OF P] positive_or_0_def)
next
  case g: (Inr g)
  show ?thesis
  proof (cases "lib_name L")
    case (Inl e)
    with run g no_loop show ?thesis
      by (simp add: start_uring_sidecar_def make_io_ring_eq [OF P] positive_or_0_def bindP_app)
  next
    case lib: (Inr lib)
    obtain instr s1 where i: "sidecar_instrument L lib (s\<lparr>ring := g\<rparr>) = (Inr instr, s1)"
      and s1: "ring s1 = g" "heap s1 = heap s" "brk s1 = brk s" "files s1 = files s" "streams s1 = streams s"
      by (cases "lib = ''trio''")
        (simp_all add: sidecar_instrument_def bindP_app new_instrument_def add_instrument_def)
    have force: "(if lib = ''asyncio'' then True else force) = (lib = ''asyncio'' \<or> force)" by simp
    have go: "start_uring_sidecar E L entries cq idle single auto force body' s =
         (case sidecar_group E L lib instr (lib = ''asyncio'' \<or> force) body' s1 of
            (y, u) \<Rightarrow> (y, snd (close_ring u)))" for body'
      unfolding start_uring_sidecar_def make_io_ring_eq [OF P] Let_def force
      by (simp add: positive_or_0_def g bindP_app lib i)
    obtain y u where grp: "sidecar_group E L lib instr (lib = ''asyncio'' \<or> force) body s1 = (y, u)"
      by (metis prod.exhaust)
    with run go [of body] have "x = y" "t = snd (close_ring u)" by simp_all
    with grouped [OF g lib i s1(1) _ _ s1(2-5) go] grp show ?thesis by simp
  qed
qed

lemma close_ring_fields [simp]:
  "the_io_uring (ring (snd (close_ring s))) = None"
  "owned_data (ring (snd (close_ring s))) = owned_data (ring s)"
  "py.more (snd (close_ring s)) = py.more s"
  "files (snd (close_ring s)) = files s"
  by (simp_all add: close_ring_def)

lemma sidecar_more_fields:
  "py.more (t :: ('r, 'w, 'q, 'i, 'z) sidecar_scheme) = py.more s \<Longrightarrow> instruments t = instruments s"
  by (cases s; cases t; simp)

lemma created_open: "create_io_ring E n cq idle single auto = Inr g \<Longrightarrow> \<exists>r. the_io_uring g = Some r"
  by (auto simp: create_io_ring_def Let_def split: if_splits sum.splits)

lemma api_run_trans:
  "api_run E t ds u \<Longrightarrow> api_run E s cs t \<Longrightarrow> api_run E s (cs @ ds) u"
proof (induction rule: api_run.induct)
  case (run_snoc t ds u l v)
  from api_run.run_snoc [OF run_snoc.IH [OF run_snoc.prems] run_snoc.hyps(2)] show ?case by simp
qed simp

text \<open>A history of the block of a sidecar is one of a new ring, which registers an event descriptor
  first.\<close>

lemma block_calls:
  fixes u v :: "('r, 'w, 'q, 'z) aio_scheme"
  assumes P: "pyo3_laws (env_pyo3 E)" and S: "stream_laws A view" and ready: "body_ready E g u"
    and run: "aio_run E A u ls v"
  obtains cs where "api_run E (u\<lparr>ring := g\<rparr>) cs v" "length cs \<le> Suc (3 * length ls)"
    "observed cs = observed (ring_history ls)"
proof -
  obtain fd r r' where fresh: "fresh_manager u" and r: "the_io_uring g = Some r"
    and reg: "ur_register_eventfd (env_ring E) fd r = (Inr (), r')"
    and ru: "ring u = g\<lparr>the_io_uring := Some r'\<rparr>"
    using ready unfolding body_ready_def by blast
  let ?s = "u\<lparr>ring := g\<rparr>"
  have "- (2 ^ 31) \<le> sint fd \<and> sint fd < 2 ^ 31"
    using sint_ge [of fd] sint_lt [of fd] by simp
  then have conv: "py_i32 (env_pyo3 E) (sint fd) = Inr fd"
    using P by (simp add: pyo3_laws_def converts_signed_def)
  have "?s\<lparr>ring := g\<lparr>the_io_uring := Some r'\<rparr>\<rparr> = u" by (simp flip: ru)
  then have "io_register_eventfd E (Some (sint fd)) ?s = (Inr (sint fd), u)"
    by (simp add: io_register_eventfd_def bindP_app conv register_eventfd_def r reg)
  from run_snoc [OF run_nil step_eventfd [OF this]]
  have first: "api_run E ?s [(Register_Eventfd (Some (sint fd)), Done)] u" by simp
  obtain cs where "api_run E u cs v" "length cs \<le> 3 * length ls" "observed cs = observed (ring_history ls)"
    using aio_run_calls [OF S fresh run fresh] by blast
  with that [OF api_run_trans [OF _ first]] show ?thesis by simp
qed

text \<open>What the block keeps, by the ledger of its own calls.\<close>

lemma block_ledger:
  fixes u v :: "('r, 'w, 'q, 'z) aio_scheme"
  assumes P: "pyo3_laws (env_pyo3 E)" and U: "uring_laws (env_ring E) live" and S: "stream_laws A view"
    and ring: "create_io_ring E n cq idle single auto = Inr g" and ready: "body_ready E g u"
    and mem: "\<forall>b \<in> dom (heap u). b < brk u"
    and run: "aio_run E A u ls v" and len: "3 * length ls < 2 ^ 63"
  shows "holdings v = ledger E (ring_history ls)" and "unowned v = dom (heap u)"
proof -
  obtain cs where cs: "api_run E (u\<lparr>ring := g\<rparr>) cs v" "length cs \<le> Suc (3 * length ls)"
    "observed cs = observed (ring_history ls)"
    using block_calls [OF P S ready run] by metis
  have "ring_inv live (u\<lparr>ring := g\<rparr>)" using ring_inv_create [OF U ring mem] by simp
  from run_booked [OF U P cs(1) _ _ this] create_fields [OF ring] cs(2) len
  have "holdings v = ledger E cs" "unowned v = dom (heap u)" by simp_all
  moreover have "ledger E cs = ledger E (ring_history ls)" using ledger_observed cs(3) by metis
  ultimately show "holdings v = ledger E (ring_history ls)" "unowned v = dom (heap u)" by simp_all
qed

lemma same_books_table:
  fixes s t :: "('r, 'z) st_scheme"
  shows "owned_data (ring t) = owned_data (ring s) \<Longrightarrow> heap t = heap s \<Longrightarrow> holdings t = holdings s \<and> unowned t = unowned s"
  using same_books_quiet [of t s] by (simp add: same_books_def)

section \<open>A loop for the witnesses\<close>

definition sample_loop_api :: "string \<Rightarrow> instrument list loop_api" where
  "sample_loop_api lib = \<lparr>lib_name = Inr lib, lp_add_instrument = (\<lambda>i x. i # x),
     lp_remove_instrument = (\<lambda>i x. if i \<in> set x then (Inr (), filter (\<lambda>j. j \<noteq> i) x) else (Inl KeyError, x)),
     group_exit = (\<lambda>r. r)\<rparr>"

lemma sample_loop_laws: "loop_laws (sample_loop_api lib) set"
  by (auto simp: loop_laws_def sample_loop_api_def)

definition sample_sidecar :: "(sim, int list, stream_view list, instrument list) sidecar" where
  "sample_sidecar = \<lparr>ring = ring sample_state, heap = Map.empty, brk = 0, handles = handles sample_state,
     next_href = 1, files = [],
     manager = \<lparr>efd = 0, force_submissions = False, completion_waiters = Map.empty\<rparr>,
     streams = [], tasks = Map.empty, dispatcher = Not_Started, instruments = []\<rparr>"

text \<open>An environment in which no event descriptor can be made.\<close>

definition no_eventfd_env :: "(sim, int list) env" where
  "no_eventfd_env = sample_env\<lparr>env_os := sample_os\<lparr>os_eventfd := (\<lambda>init flags w. (Inl 24, w))\<rparr>\<rparr>"

lemma no_eventfd_facts:
  "pyo3_laws (env_pyo3 no_eventfd_env)"
  "fst (os_eventfd (env_os no_eventfd_env) init flags w) = Inl 24"
  "env_ring no_eventfd_env = sim_uring"
  "\<exists>g. create_io_ring no_eventfd_env 256 0 0 True True = Inr g"
  by (simp_all add: no_eventfd_env_def sample_env_def sample_pyo3_laws create_io_ring_def
      supported_kernel_def sim_uring_def)

lemma sample_created: "\<exists>g. create_io_ring sample_env 256 0 0 True True = Inr g"
  by (simp add: sample_env_def create_io_ring_def supported_kernel_def sim_uring_def)

text \<open>A block that submits a read and leaves without waiting for it.\<close>

abbreviation sample_read :: request where
  "sample_read \<equiv> Prep_Read (FdInt 3) 4 (-1) None"

definition hasty_body :: "((sim, int list, stream_view list, instrument list) sidecar, unit) prog" where
  "hasty_body s = (Inr (), snd (perform sample_env sample_read s))"

lemma hasty_body_run:
  "\<exists>ls. aio_run sample_env sample_streams u ls (snd (hasty_body u)) \<and> 3 * length ls < 2 ^ 63"
proof -
  obtain x t where run: "perform sample_env sample_read u = (x, t)" by (metis prod.exhaust)
  from aio_snoc [OF aio_nil aio_ring [OF step_request [OF run]]]
  have "aio_run sample_env sample_streams u [Ring_Call (Request sample_read) (Value x)] t" by simp
  moreover have "3 * length [Ring_Call (Request sample_read) (Value x)] < 2 ^ 63" by simp
  ultimately show ?thesis using run unfolding hasty_body_def by (metis snd_conv)
qed

section \<open>Properties\<close>





text \<open>C31: on \<^verbatim>\<open>trio\<close> a sidecar that got as far as its block leaves no instrument behind. If the block
  keeps the instruments as it finds them, then after it the same instruments are installed as
  before the sidecar, and the outcome is that of the block.\<close>

theorem trio_instrument_removed:
  fixes s :: "('r, 'w, 'q, 'i, 'z) sidecar_scheme"
  assumes P: "pyo3_laws (env_pyo3 E)" and L: "loop_laws L installed" and lib: "lib_name L = Inr ''trio''"
    and new: "next_href s \<notin> installed (instruments s)"
    and block: "\<And>u. instruments (snd (body u)) = instruments u"
    and run: "start_uring_sidecar E L entries cq idle single auto force body s = (x, t)"
    and reached: "\<not> (\<forall>body'. start_uring_sidecar E L entries cq idle single auto force body' s = (x, t))"
  shows "installed (instruments t) = installed (instruments s) \<and>
    (\<exists>u. x = group_exit L (fst (body u)))"
  using P run
proof (cases rule: sidecar_run)
  case (no_ring e)
  then have "start_uring_sidecar E L entries cq idle single auto force body' s = (x, t)" for body'
    by (simp add: start_uring_sidecar_def make_io_ring_eq [OF P] positive_or_0_def)
  with reached show ?thesis by blast
next
  case (no_loop g e)
  with lib show ?thesis by simp
next
  case (grouped g lib' instr s1 t1)
  have i: "instr = Some (next_href s)" "instruments s1 = lp_add_instrument L (next_href s) (instruments s)"
    using grouped(2,3) lib
    by (auto simp: sidecar_instrument_def bindP_app new_instrument_def add_instrument_def)
  obtain r where r: "the_io_uring (ring s1) = Some r"
    using created_open [OF grouped(1)] grouped(4) by auto
  from P grouped(5) r show ?thesis
  proof (cases rule: sidecar_group_run)
    case (unstarted e w fs)
    with reached grouped(6,11) show ?thesis by simp
  next
    case (started u y v)
    have v: "instruments v = instruments s1" using block [of u] started(3,6) by simp
    have "installed (instruments v) = insert (next_href s) (installed (instruments s))"
      using L unfolding loop_laws_def v i(2) by simp
    then obtain z where z: "lp_remove_instrument L (next_href s) (instruments v) = (Inr (), z)"
      "installed z = installed (instruments s)"
      using L new unfolding loop_laws_def by (metis Diff_insert_absorb insertI1)
    then have "instruments t1 = z" "x = group_exit L y"
      using started(9) by (simp_all add: i(1) remove_instrument_def)
    then show ?thesis
      using z(2) started(6) sidecar_more_fields [OF close_ring_fields(3), of t1]
      by (auto simp: grouped(6) intro!: exI [of _ u])
  qed
qed

theorem trio_instrument_removed_witness:
  "\<exists>x t. start_uring_sidecar sample_env (sample_loop_api ''trio'') 8 None None True True False (ret ())
       sample_sidecar = (x, t) \<and> set (instruments t) = {}"
proof -
  let ?run = "\<lambda>body. start_uring_sidecar sample_env (sample_loop_api ''trio'') 8 None None True True
      False body sample_sidecar"
  obtain x t where run: "?run (ret ()) = (x, t)" by (metis prod.exhaust)
  have "isl (fst (?run (raise_exn KeyError))) \<and> \<not> isl (fst (?run (ret ())))"
    by code_simp
  then have "\<not> (\<forall>body'. ?run body' = (x, t))" using run by (metis fst_conv)
  from trio_instrument_removed [OF sample_env_laws(2) sample_loop_laws _ _ _ run this] run
  show ?thesis by (simp add: sample_loop_api_def sample_sidecar_def)
qed

text \<open>C32: but on \<^verbatim>\<open>trio\<close> a sidecar that fails on its way in leaves its instrument installed on a
  closed ring. If the event descriptor cannot be made, the sidecar raises, the instrument it added
  is still there, and calling it before the next I/O wait raises \<open>ValueError\<close>.\<close>

theorem trio_instrument_leaks:
  fixes s :: "('r, 'w, 'q, 'i, 'z) sidecar_scheme"
  assumes P: "pyo3_laws (env_pyo3 E)" and L: "loop_laws L installed" and lib: "lib_name L = Inr ''trio''"
    and ring: "create_io_ring E 256 0 0 True True = Inr g"
    and fails: "fst (os_eventfd (env_os E) 0 EFD_CLOEXEC (files s)) = Inl errno"
    and run: "start_uring_sidecar E L entries cq idle single auto force body s = (x, t)"
  shows "isl x \<and> installed (instruments t) = insert (next_href s) (installed (instruments s)) \<and>
    before_io_wait E t = (Inl (ValueError RingClosed), t)"
  using P run
proof (cases rule: sidecar_run)
  case (no_ring e)
  with ring show ?thesis by simp
next
  case (no_loop g e)
  with lib show ?thesis by simp
next
  case (grouped g' lib' instr s1 t1)
  have i: "instruments s1 = lp_add_instrument L (next_href s) (instruments s)" and fs: "files s1 = files s"
    using grouped(2,3) lib
    by (auto simp: sidecar_instrument_def bindP_app new_instrument_def add_instrument_def)
  have "x = group_exit L (Inl (OSError (Some errno)))" "instruments t1 = instruments s1"
    using grouped(5) fails
    by (auto simp: sidecar_group_def in_task_group_def bindP_app os_eventfd_call_def fs split: prod.splits)
  then show ?thesis
    using L sidecar_more_fields [OF close_ring_fields(3), of t1]
    by (simp add: grouped(6) i loop_laws_def before_io_wait_def io_submit_def submit_def bindP_app)
qed

theorem trio_instrument_leaks_witness:
  "\<exists>x t. start_uring_sidecar no_eventfd_env (sample_loop_api ''trio'') 8 None None True True False (ret ())
       sample_sidecar = (x, t) \<and> set (instruments t) = {1}"
proof -
  obtain g where g: "create_io_ring no_eventfd_env 256 0 0 True True = Inr g"
    using no_eventfd_facts(4) by blast
  obtain x t where run: "start_uring_sidecar no_eventfd_env (sample_loop_api ''trio'') 8 None None True
      True False (ret ()) sample_sidecar = (x, t)" by (metis prod.exhaust)
  from trio_instrument_leaks [OF no_eventfd_facts(1) sample_loop_laws _ g no_eventfd_facts(2) run] run
  show ?thesis by (simp add: sample_loop_api_def sample_sidecar_def)
qed

text \<open>A sidecar never closes its event descriptor. If the block leaves the files of the process
  alone, then when the sidecar is over they are as \<open>os.eventfd\<close> left them: the descriptor it made
  stays open.\<close>

lemma sidecar_leaks_eventfd:
  fixes s :: "('r, 'w, 'q, 'i, 'z) sidecar_scheme"
  assumes P: "pyo3_laws (env_pyo3 E)" and ring: "create_io_ring E 256 0 0 True True = Inr g"
    and lib: "lib_name L = Inr lib" and block: "\<And>u. files (snd (body u)) = files u"
  shows "files (snd (start_uring_sidecar E L entries cq idle single auto force body s)) =
    snd (os_eventfd (env_os E) 0 EFD_CLOEXEC (files s))"
proof -
  obtain x t where run: "start_uring_sidecar E L entries cq idle single auto force body s = (x, t)"
    by (metis prod.exhaust)
  from P run have "files t = snd (os_eventfd (env_os E) 0 EFD_CLOEXEC (files s))"
  proof (cases rule: sidecar_run)
    case (no_ring e)
    with ring show ?thesis by simp
  next
    case (no_loop g e)
    with lib show ?thesis by simp
  next
    case (grouped g' lib' instr s1 t1)
    obtain r where r: "the_io_uring (ring s1) = Some r"
      using created_open [OF grouped(1)] grouped(4) by auto
    from P grouped(5) r show ?thesis
    proof (cases rule: sidecar_group_run)
      case (unstarted e w fs)
      then show ?thesis by (simp add: grouped(6,9))
    next
      case (started u y v)
      have "files v = files u" using block [of u] started(6) by simp
      moreover have "files t1 = files v"
        using started(9) by (auto simp: remove_instrument_def split: option.splits prod.splits sum.splits)
      ultimately show ?thesis using started(8) by (simp add: grouped(6,9))
    qed
  qed
  then show ?thesis by (simp add: run)
qed



text \<open>C9: a sidecar from end to end. Let its block be any activity of tasks, dispatcher and ring. Then either
  the block never ran and the Rust side holds nothing new, or it ran on a new manager, and what the
  sidecar leaves behind on its closed ring is exactly the memory of the requests the block made and
  whose completions nobody had fetched: neither the way in, nor cancelling the dispatcher, nor removing
  the instrument, nor closing the ring releases memory in use or loses any.\<close>

theorem sidecar_leaves_outstanding:
  fixes s :: "('r, 'w, 'q, 'i, 'z) sidecar_scheme"
  assumes P: "pyo3_laws (env_pyo3 E)" and U: "uring_laws (env_ring E) live" and S: "stream_laws A view"
    and mem: "\<forall>b \<in> dom (heap s). b < brk s"
    and block: "\<And>u. fresh_manager u \<Longrightarrow> \<exists>ls. aio_run E A u ls (snd (body u)) \<and> 3 * length ls < 2 ^ 63"
    and run: "start_uring_sidecar E L entries cq idle single auto force body s = (x, t)"
  shows "heap t = heap s \<and>
      (\<forall>body'. start_uring_sidecar E L entries cq idle single auto force body' s = (x, t)) \<or>
    (\<exists>u ls. fresh_manager u \<and> aio_run E A u ls (snd (body u)) \<and> the_io_uring (ring t) = None \<and>
      holdings t = ledger E (ring_history ls) \<and>
      {b \<in> dom (heap t). \<not> owned_somewhere t b} = dom (heap s))"
  using P run
proof (cases rule: sidecar_run)
  case (no_ring e)
  then show ?thesis by (simp add: start_uring_sidecar_def make_io_ring_eq [OF P] positive_or_0_def)
next
  case (no_loop g e)
  then show ?thesis
    by (simp add: start_uring_sidecar_def make_io_ring_eq [OF P] positive_or_0_def bindP_app close_ring_def)
next
  case (grouped g lib instr s1 t1)
  obtain r where r: "the_io_uring (ring s1) = Some r"
    using created_open [OF grouped(1)] grouped(4) by auto
  from P grouped(5) r show ?thesis
  proof (cases rule: sidecar_group_run)
    case (unstarted e w fs)
    then show ?thesis using grouped(6,7,11) by (simp add: close_ring_def)
  next
    case (started u y v)
    have fresh: "fresh_manager u" using started(1) by (simp add: body_ready_def)
    obtain ls where ls: "aio_run E A u ls v" "3 * length ls < 2 ^ 63"
      using block [OF fresh] started(6) by auto
    have "holdings v = ledger E (ring_history ls)" "unowned v = dom (heap s)"
      using block_ledger [OF P U S grouped(1) started(1)[unfolded grouped(4)] _ ls] mem
      by (simp_all add: started(4,5) grouped(7,8))
    moreover have "owned_data (ring t1) = owned_data (ring v) \<and> heap t1 = heap v"
      using started(9) by (auto simp: remove_instrument_def split: option.splits prod.splits sum.splits)
    then have "holdings t = holdings v" "unowned t = unowned v"
      using same_books_table [of t v] by (simp_all add: grouped(6) close_ring_def)
    ultimately show ?thesis
      using fresh ls(1) started(6) by (intro disjI2 exI [of _ u] exI [of _ ls]) (simp add: unowned_def grouped(6))
  qed
qed

theorem sidecar_leaves_outstanding_witness:
  "\<exists>t. start_uring_sidecar sample_env (sample_loop_api ''trio'') 8 None None True True False hasty_body
       sample_sidecar = (Inr (), t) \<and> the_io_uring (ring t) = None \<and>
     holdings t 0 = Some (Buffer_Memory 4) \<and>
     {b \<in> dom (heap t). \<not> owned_somewhere t b} = dom (heap sample_sidecar)"
proof -
  let ?run = "\<lambda>body. start_uring_sidecar sample_env (sample_loop_api ''trio'') 8 None None True True
      False body sample_sidecar"
  have calc: "isl (fst (?run (raise_exn KeyError))) \<and>
      (case ?run hasty_body of (x, t) \<Rightarrow> x = Inr () \<and> holdings t 0 = Some (Buffer_Memory 4))"
    by code_simp
  then obtain t where run: "?run hasty_body = (Inr (), t)" and held: "holdings t 0 = Some (Buffer_Memory 4)"
    by auto
  have "\<not> (\<forall>body'. ?run body' = (Inr (), t))" using calc by (metis fst_conv sum.disc(2))
  moreover have "\<forall>b \<in> dom (heap sample_sidecar). b < brk sample_sidecar"
    by (simp add: sample_sidecar_def)
  ultimately have "the_io_uring (ring t) = None \<and>
      {b \<in> dom (heap t). \<not> owned_somewhere t b} = dom (heap sample_sidecar)"
    using sidecar_leaves_outstanding [OF sample_env_laws(2,3) sample_streams_laws _ hasty_body_run run]
    by blast
  with run held show ?thesis by blast
qed

end
