(* ===== verification/Ring_Props.thy ===== *)
theory Ring_Props
  imports Ring_Reap Sample_State
begin

text \<open>
  Properties of the operations of \<open>TheIoRing\<close> by themselves: automatic submission, reaping, the
  internal timeout, closing, creation.
\<close>

section \<open>Automatic submission\<close>

text \<open>The contract of \<open>autosubmit\<close> on an open ring, without its loop.\<close>

definition autosubmit_spec ::
  "'r uring_api \<Rightarrow> sqe \<Rightarrow> bool \<Rightarrow> 'r \<Rightarrow> mem \<Rightarrow> (exn + unit) \<times> 'r \<times> mem" where
  "autosubmit_spec U e auto r m =
     (case (ur_push U e r, auto) of
        (Some r', _) \<Rightarrow> (Inr (), r', m)
      | (None, False) \<Rightarrow> (Inl (ValueError QueueFull), r, m)
      | (None, True) \<Rightarrow>
          (case ur_submit U r m of
             (Inl err, r', m') \<Rightarrow> (Inl (OSError (Some err)), r', m')
           | (Inr _, r', m') \<Rightarrow>
               (case ur_push U e r' of
                  Some r'' \<Rightarrow> (Inr (), r'', m')
                | None \<Rightarrow> (Inl (ValueError QueueFull), r', m'))))"

text \<open>\<open>autosubmit\<close> implements its contract, in all cases and with its exact effect on the
  state. On a closed ring it raises; otherwise it pushes at once when there is room, enters the
  kernel exactly once when the queue is full and automatic submission is on, raises \<open>queue full\<close>
  without entering the kernel when it is off, and pushes the entry exactly when it returns
  normally.\<close>

lemma autosubmit_meets_spec:
  "autosubmit E e s =
     (case the_io_uring (ring s) of
        None \<Rightarrow> (Inl (ValueError RingClosed), s)
      | Some r \<Rightarrow>
          (case autosubmit_spec (env_ring E) e (autosubmit_on (ring s)) r (heap s) of
             (x, r', m') \<Rightarrow> (x, s\<lparr>ring := (ring s)\<lparr>the_io_uring := Some r'\<rparr>, heap := m'\<rparr>)))"
  by (auto simp: autosubmit_def autosubmit_loop_unrolled autosubmit_spec_def
      split: option.splits prod.splits sum.splits bool.splits)

section \<open>Reaping\<close>

lemma reap_entries_events:
  "map (\<lambda>ev. (ev_user_data ev, ev_result ev)) (fst (reap_entries cs s)) =
     map (\<lambda>c. (cqe_user_data c, cqe_result c)) cs"
proof (induction cs arbitrary: s)
  case Nil
  then show ?case by simp
next
  case (Cons c cs)
  then show ?case unfolding reap_entries_Cons by (simp add: reap_entry_fields)
qed

text \<open>A state with two completions to reap, one of them of a read into block 0.\<close>

definition reaping_state :: "sim st" where
  "reaping_state = \<lparr>
     ring = \<lparr>the_io_uring = Some \<lparr>sim_cap = 2, sim_sq = [],
         sim_cq = [(\<lparr>op_of = Read 3 0 4 0, sqe_flag_bits = 0, sqe_user_data = 0\<rparr>, 2),
           (\<lparr>op_of = Close 3, sqe_flag_bits = 0, sqe_user_data = 5\<rparr>, 0)]\<rparr>,
       probe = (\<lambda>_. True), user_data_counter = 6, autosubmit_on = True,
       owned_data = [0 \<mapsto> Buffer 0, 1 \<mapsto> OnePath 1]\<rparr>,
     heap = [0 \<mapsto> [1, 2, 3, 4], 1 \<mapsto> [0]], brk = 2\<rparr>"

lemma reaping_state_facts:
  "the_io_uring (ring reaping_state) = Some \<lparr>sim_cap = 2, sim_sq = [],
     sim_cq = [(\<lparr>op_of = Read 3 0 4 0, sqe_flag_bits = 0, sqe_user_data = 0\<rparr>, 2),
       (\<lparr>op_of = Close 3, sqe_flag_bits = 0, sqe_user_data = 5\<rparr>, 0)]\<rparr>"
  "drain (env_ring sample_env) \<lparr>sim_cap = 2, sim_sq = [],
     sim_cq = [(\<lparr>op_of = Read 3 0 4 0, sqe_flag_bits = 0, sqe_user_data = 0\<rparr>, 2),
       (\<lparr>op_of = Close 3, sqe_flag_bits = 0, sqe_user_data = 5\<rparr>, 0)]\<rparr> (heap reaping_state) [] =
   Some ([\<lparr>cqe_user_data = 0, cqe_result = 2\<rparr>, \<lparr>cqe_user_data = 5, cqe_result = 0\<rparr>],
     \<lparr>sim_cap = 2, sim_sq = [], sim_cq = []\<rparr>, heap reaping_state)"
  by (simp_all add: reaping_state_def drain.simps sample_env_def sim_uring_def)



text \<open>What becomes of a buffer when its operation completes. If the operation failed, or filled
  the buffer exactly, Python gets the bytes as they are; otherwise the buffer is cut, or padded with
  zeros, to the length of the result. In every successful case the event's buffer has exactly as
  many bytes as the result says, and its common prefix is what was in memory. The block leaves the
  heap. Other owned data is dropped and gives no buffer.\<close>

lemma completed_buffer:
  assumes "owned_data (ring s) (cqe_user_data c) = Some d" and "heap s b = Some bs"
  shows "(d = Buffer b \<longrightarrow> (\<exists>buf. ev_buffer (fst (reap_entry c s)) = Some buf \<and>
            (sint (cqe_result c) < 0 \<longrightarrow> buf = bs) \<and>
            (0 \<le> sint (cqe_result c) \<longrightarrow> length buf = nat (sint (cqe_result c)) \<and>
               take (length bs) buf = take (length buf) bs \<and>
               (\<forall>x \<in> set (drop (length bs) buf). x = 0)))) \<and>
         ((\<nexists>b'. d = Buffer b') \<longrightarrow> ev_buffer (fst (reap_entry c s)) = None) \<and>
         (b \<in> set (owned_blocks d) \<longrightarrow> heap (snd (reap_entry c s)) b = None) \<and>
         (b \<notin> set (owned_blocks d) \<longrightarrow> heap (snd (reap_entry c s)) b = Some bs)"
proof (cases d)
  case (Buffer b')
  have "ev_buffer (fst (reap_entry c s)) = map_option (finish_buffer (cqe_result c)) (heap s b')"
    using assms(1) Buffer by (simp add: reap_entry_def Let_def)
  with assms Buffer show ?thesis
    by (auto simp: heap_reap_entry finish_buffer_def vec_resize_def min_def)
next
  case (OnePath p)
  with assms show ?thesis
    by (auto simp: heap_reap_entry) (simp_all add: reap_entry_def Let_def)
next
  case (TwoPaths p q)
  with assms show ?thesis
    by (auto simp: heap_reap_entry) (simp_all add: reap_entry_def Let_def)
next
  case (SockAddr a)
  with assms show ?thesis
    by (auto simp: heap_reap_entry) (simp_all add: reap_entry_def Let_def)
qed


lemma sample_posts_finitely: "posts_finitely (env_ring sample_env) (\<lambda>r. length (sim_cq r))"
  by (auto simp: posts_finitely_def sample_env_def sim_uring_def)


section \<open>The internal timeout\<close>

text \<open>\<open>wait_with_timeout\<close> on every path. It submits what is queued first, and only then queues
  the timeout, so the timeout never displaces or delays a user's entry; it returns the count of
  that first submit; an error of any of its three stages is the exception, with the effects of the
  earlier stages kept; and the completion its timeout may post is one \<open>should_be_ignored\<close>
  drops.\<close>

lemma wait_with_timeout_behaviour:
  "wait_with_timeout E sec nsec s =
     (case the_io_uring (ring s) of
        None \<Rightarrow> (Inl (ValueError RingClosed), s)
      | Some r \<Rightarrow>
          (case ur_submit (env_ring E) r (heap s) of
             (Inl err, r1, m1) \<Rightarrow> (Inl (OSError (Some err)), entered r1 m1 s)
           | (Inr n, r1, m1) \<Rightarrow>
               (case ur_push (env_ring E) (timeout_sqe E sec nsec) r1 of
                  None \<Rightarrow> (Inl (ValueError TimeoutNotSubmitted), entered r1 m1 s)
                | Some r2 \<Rightarrow>
                    (case ur_submit_and_wait (env_ring E) 1 r2 m1 of
                       (Inl err, r3, m3) \<Rightarrow> (Inl (OSError (Some err)), entered r3 m3 s)
                     | (Inr _, r3, m3) \<Rightarrow> (Inr n, entered r3 m3 s)))))
   \<and> should_be_ignored \<lparr>ev_user_data = sqe_user_data (timeout_sqe E sec nsec), ev_result = res,
        ev_buffer = buf\<rparr>"
proof -
  have "should_be_ignored \<lparr>ev_user_data = sqe_user_data (timeout_sqe E sec nsec), ev_result = res,
      ev_buffer = buf\<rparr>"
    by (simp add: should_be_ignored_def timeout_sqe_def timeout_user_data_def)
  then show ?thesis
    by (simp add: wait_with_timeout_def bindP_def submit_def push_timeout_def wait_cqes_def
        entered_def split: option.split prod.split sum.split)
qed

section \<open>Closing and creating\<close>

text \<open>A closed ring answers every operation with \<open>ValueError: The ring is closed\<close>, unchanged.\<close>

lemma closed_ring_calls:
  assumes "the_io_uring (ring t) = None"
  shows "submit E t = (Inl (ValueError RingClosed), t)"
    "wait_cqes E n t = (Inl (ValueError RingClosed), t)"
    "wait_with_timeout E sec nsec t = (Inl (ValueError RingClosed), t)"
    "pending_sq_entries E t = (Inl (ValueError RingClosed), t)"
    "get_completion_entries E t = Some (Inl (ValueError RingClosed), t)"
    "register_eventfd E fd t = (Inl (ValueError RingClosed), t)"
    "autosubmit E e t = (Inl (ValueError RingClosed), t)"
    "close_ring t = (Inr (), t)"
  using assms
  by (simp_all add: close_ring_def submit_def wait_cqes_def wait_with_timeout_def bindP_def
      pending_sq_entries_def get_completion_entries_def register_eventfd_def autosubmit_def)

text \<open>What \<open>create_io_ring\<close> accepts. It succeeds exactly when the number of entries is not
  zero, the kernel (taken as 5.18 when it cannot be determined) is at least 5.18, and the kernel
  builds a ring that drops nothing and can be probed; the ring is then open and owns nothing, its
  numbering starts at 0, and it was built with a larger completion queue only when one was asked
  for and as a single issuer only when the kernel knows the flag.\<close>

lemma create_io_ring_succeeds_iff:
  "create_io_ring E n cq idle single auto = Inr g \<longleftrightarrow>
     (let (major, minor) = (case env_kernel_version E of None \<Rightarrow> (5, 18) | Some v \<Rightarrow> v);
          cfg = \<lparr>cfg_dontfork = True, cfg_submit_all = True,
            cfg_single_issuer = (single \<and> 6 \<le> major),
            cfg_sqpoll = (if idle = 0 then None else Some idle),
            cfg_cqsize = (if cq \<le> n then None else Some cq), cfg_entries = n\<rparr> in
      n \<noteq> 0 \<and> (5 < major \<or> major = 5 \<and> 18 \<le> minor) \<and>
      (\<exists>r p. ur_build (env_ring E) cfg = Inr r \<and> ur_feature_nodrop (env_ring E) r \<and>
         ur_register_probe (env_ring E) r = Inr p \<and>
         g = \<lparr>the_io_uring = Some r, probe = p, user_data_counter = 0, autosubmit_on = auto,
              owned_data = Map.empty\<rparr>))"
proof -
  obtain major minor where v: "(case env_kernel_version E of None \<Rightarrow> (5, 18) | Some v \<Rightarrow> v) = (major, minor)"
    by (metis prod.exhaust)
  have ok: "supported_kernel (major, minor) \<longleftrightarrow> 5 < major \<or> major = 5 \<and> 18 \<le> minor"
    by (auto simp: supported_kernel_def)
  have cfg: "builder_config (major, minor) n cq idle single = \<lparr>cfg_dontfork = True,
      cfg_submit_all = True, cfg_single_issuer = (single \<and> 6 \<le> major),
      cfg_sqpoll = (if idle = 0 then None else Some idle),
      cfg_cqsize = (if cq \<le> n then None else Some cq), cfg_entries = n\<rparr>"
    by (auto simp: builder_config_def not_le word_gt_0)
  have run: "((if n = 0 then Inl x else if \<not> ok then Inl y
      else case b of Inl err \<Rightarrow> Inl (z err)
        | Inr r \<Rightarrow> if \<not> nodrop r then Inl w
            else case pr r of Inl err \<Rightarrow> Inl (z err) | Inr p \<Rightarrow> Inr (new r p)) = Inr g) \<longleftrightarrow>
     n \<noteq> 0 \<and> ok \<and> (\<exists>r p. b = Inr r \<and> nodrop r \<and> pr r = Inr p \<and> g = new r p)"
    for x y w :: exn and z ok nodrop and b :: "int + 'a" and pr :: "'a \<Rightarrow> int + (opcode \<Rightarrow> bool)"
      and new :: "'a \<Rightarrow> (opcode \<Rightarrow> bool) \<Rightarrow> 'a the_io_ring"
  proof (cases b)
    case (Inr r)
    then show ?thesis by (cases "pr r") auto
  qed simp
  show ?thesis
    unfolding create_io_ring_def v Let_def prod.case ok cfg by (rule run)
qed

end
