(* ===== verification/Api_Errors.thy ===== *)
theory Api_Errors
  imports Api_Spec Ring_Props
begin

text \<open>
  What the methods refuse, and what a refusal leaves behind: flags that may lose a completion,
  closed handles, arguments that cannot be a slice, operations the kernel does not have.
\<close>

section \<open>Parts of a request\<close>

fun file_of :: "request \<Rightarrow> acceptable_file option" where
  "file_of (Prep_Openat _ _ _ _ _ _) = None"
| "file_of (Prep_Close f _) = Some f"
| "file_of (Prep_Read f _ _ _) = Some f"
| "file_of (Prep_Write f _ _ _ _ _) = Some f"
| "file_of (Prep_Create_Socket _ _ _ _ _) = None"
| "file_of (Prep_Connect_V4 f _ _ _) = Some f"
| "file_of (Prep_Connect_V6 f _ _ _) = Some f"
| "file_of (Prep_Recv f _ _ _) = Some f"
| "file_of (Prep_Send f _ _ _ _ _) = Some f"

text \<open>The operations that leave memory with the ring.\<close>

fun owns_data :: "request \<Rightarrow> bool" where
  "owns_data (Prep_Close _ _) = False"
| "owns_data (Prep_Create_Socket _ _ _ _ _) = False"
| "owns_data _ = True"

fun offset_ok :: "request \<Rightarrow> bool" where
  "offset_ok (Prep_Read _ _ off _) \<longleftrightarrow> -1 \<le> off"
| "offset_ok (Prep_Write _ _ off _ _ _) \<longleftrightarrow> -1 \<le> off"
| "offset_ok _ \<longleftrightarrow> True"

fun code_of :: "request \<Rightarrow> opcode" where
  "code_of (Prep_Openat _ _ _ _ _ _) = CODE_OpenAt"
| "code_of (Prep_Close _ _) = CODE_Close"
| "code_of (Prep_Read _ _ _ _) = CODE_Read"
| "code_of (Prep_Write _ _ _ _ _ _) = CODE_Write"
| "code_of (Prep_Create_Socket _ _ _ _ _) = CODE_Socket"
| "code_of (Prep_Connect_V4 _ _ _ _) = CODE_Connect"
| "code_of (Prep_Connect_V6 _ _ _ _) = CODE_Connect"
| "code_of (Prep_Recv _ _ _ _) = CODE_Recv"
| "code_of (Prep_Send _ _ _ _ _ _) = CODE_Send"

section \<open>Programs that submit nothing\<close>

text \<open>Memory the program has not allocated yet is not in the heap.\<close>

definition fresh_heap :: "('r, 'z) st_scheme \<Rightarrow> bool" where
  "fresh_heap s \<longleftrightarrow> (\<forall>b \<in> dom (heap s). b < brk s)"

text \<open>The same queue, the same table, and the same memory.\<close>

definition untouched :: "('r, 'z) st_scheme \<Rightarrow> ('r, 'z) st_scheme \<Rightarrow> bool" where
  "untouched s t \<longleftrightarrow> the_io_uring (ring t) = the_io_uring (ring s) \<and>
     owned_data (ring t) = owned_data (ring s) \<and>
     (fresh_heap s \<longrightarrow> heap t = heap s \<and> brk s \<le> brk t)"

lemma untouched_refl [simp]: "untouched s s"
  by (simp add: untouched_def)

lemma fresh_heap_mono: "fresh_heap s \<Longrightarrow> heap t = heap s \<Longrightarrow> brk s \<le> brk t \<Longrightarrow> fresh_heap t"
  unfolding fresh_heap_def by (metis order_less_le_trans)

lemma untouched_trans: "untouched s t \<Longrightarrow> untouched t u \<Longrightarrow> untouched s u"
  using fresh_heap_mono [of s t] by (auto simp: untouched_def)

lemma untouched_next [simp]: "untouched s (snd (get_next_user_data s))"
  by (simp add: untouched_def get_next_user_data_def)

lemma alloc_untouched: "untouched s (free_blocks [brk s] (snd (alloc bs s)))"
proof -
  have "heap s (brk s) = None" if "fresh_heap s"
    using that by (auto simp: fresh_heap_def domIff)
  then show ?thesis
    by (auto simp: untouched_def alloc_def free_blocks_def restrict_map_def fun_eq_iff)
qed

text \<open>From every state in \<open>P\<close> the program raises, having submitted nothing and kept no memory.\<close>

definition rejects :: "(('r, 'z) st_scheme \<Rightarrow> bool) \<Rightarrow> (('r, 'z) st_scheme, 'a) prog \<Rightarrow> bool" where
  "rejects P m \<longleftrightarrow> (\<forall>s. P s \<longrightarrow> isl (fst (m s)) \<and> untouched s (snd (m s)))"

lemma rejectsD: "rejects P m \<Longrightarrow> P s \<Longrightarrow> isl (fst (m s)) \<and> untouched s (snd (m s))"
  by (simp add: rejects_def)

lemma rejects_reads: "reads m \<Longrightarrow> (\<And>x. rejects P (f x)) \<Longrightarrow> rejects P (bindP m f)"
  by (simp add: rejects_def bindP_reads split: sum.split)

lemma rejects_lift: "(\<And>x. r = Inr x \<Longrightarrow> rejects P (f x)) \<Longrightarrow> rejects P (bindP (liftP r) f)"
  by (cases r) (simp_all add: rejects_def bindP_liftP)

lemma rejects_require: "rejects P m \<Longrightarrow> rejects P (bindP (require_support c n) (\<lambda>_. m))"
  by (simp add: rejects_def bindP_require_support)

lemma rejects_unsupported:
  "(\<And>s. P s \<Longrightarrow> \<not> probe (ring s) c) \<Longrightarrow> rejects P (bindP (require_support c n) f)"
  by (simp add: rejects_def bindP_require_support)

lemma rejects_skip: "skips_success (env_flags E) fl \<Longrightarrow> rejects P (bindP (refuse_skip_success E fl) f)"
  by (simp add: rejects_def bindP_refuse_skip)

text \<open>An allocated block is dropped again when what follows raises.\<close>

lemma rejects_alloc:
  assumes "\<And>b. rejects Q (m b)" "\<And>s. P s \<Longrightarrow> Q (snd (alloc bs s))"
    and "\<And>b s. Q s \<Longrightarrow> snd (m b s) = s"
  shows "rejects P (bindP (alloc bs) (\<lambda>b. bindP (or_drop b (m b)) (f b)))"
  unfolding rejects_def
proof (intro allI impI)
  fix s assume s: "P s"
  obtain s1 where al: "alloc bs s = (Inr (brk s), s1)" by (simp add: alloc_def)
  have Q: "Q s1" using assms(2) [OF s] by (simp add: al)
  obtain x where m: "m (brk s) s1 = (x, s1)" using assms(3) [OF Q] by (metis prod.collapse)
  have "isl x" using rejectsD [OF assms(1) Q, of "brk s"] by (simp add: m)
  with m al show "isl (fst (bindP (alloc bs) (\<lambda>b. bindP (or_drop b (m b)) (f b)) s)) \<and>
      untouched s (snd (bindP (alloc bs) (\<lambda>b. bindP (or_drop b (m b)) (f b)) s))"
    using alloc_untouched [of s bs] by (cases x) (simp_all add: bindP_def or_drop_def)
qed

lemma rejects_sockaddr_skip:
  "skips_success (env_flags E) fl \<Longrightarrow> rejects P (do_sockaddr_submit E fd addr ud fl)"
  unfolding do_sockaddr_submit_def refuse_eq Let_def
  by (rule rejects_alloc [where Q = "\<lambda>_. True"]) (simp_all add: rejects_def)

lemma rejects_numbered:
  assumes "\<And>ud. rejects P (op ud)" "\<And>s. P s \<Longrightarrow> P (snd (get_next_user_data s))"
  shows "rejects P (numbered op)"
  unfolding rejects_def
proof (intro allI impI)
  fix s assume s: "P s"
  let ?u = "user_data_counter (ring s)"
  obtain s1 where run: "get_next_user_data s = (Inr ?u, s1)" by (simp add: get_next_user_data_def)
  have s1: "P s1" "untouched s s1" using assms(2) [OF s] untouched_next [of s] by (simp_all add: run)
  obtain x t where op: "op ?u s1 = (x, t)" by (metis prod.exhaust)
  with rejectsD [OF assms(1) s1(1), of ?u] untouched_trans [OF s1(2), of t] have "isl x" "untouched s t"
    by auto
  with run op show "isl (fst (numbered op s)) \<and> untouched s (snd (numbered op s))"
    by (cases x) (simp_all add: numbered_def bindP_def)
qed

lemma get_next_user_data_ring [simp]:
  "probe (ring (snd (get_next_user_data s))) = probe (ring s)"
  by (simp add: get_next_user_data_def)

lemmas rejects_rules = rejects_lift rejects_require rejects_skip rejects_sockaddr_skip

text \<open>The methods by their shape: some reading, then a numbered submission.\<close>

lemma rejects_prep_close:
  assumes "\<And>ud i. rejects P (ffi_prep_close E i ud (sqe_flags_or_0 fl))"
    and "\<And>s. P s \<Longrightarrow> P (snd (get_next_user_data s))"
  shows "rejects P (prep_close E f fl)"
proof (cases f)
  case (FdInt i)
  show ?thesis unfolding FdInt prep_close_int
    by (intro rejects_numbered rejects_reads assms) simp_all
next
  case (FdObj h)
  have after: "rejects P m \<Longrightarrow> rejects P (bindP m (\<lambda>_. g))" for m g
    by (auto simp: rejects_def bindP_def split: prod.split sum.split)
  show ?thesis unfolding FdObj prep_close_obj bindP_assoc
    by (intro rejects_numbered rejects_reads [OF reads_unwrap_file] after assms)
qed

lemma ffi_skip:
  assumes bad: "\<And>w. py_u8 (env_pyo3 E) fl = Inr w \<Longrightarrow> skips_success (env_flags E) w"
  shows "rejects P (ffi_prep_openat E dirfd path ud flags perms fl)"
    "rejects P (ffi_prep_read E fd n off ud fl)"
    "rejects P (ffi_prep_write E fd buf sz start off ud fl)"
    "rejects P (ffi_prep_connect_v4 E fd ip port ud fl)"
    "rejects P (ffi_prep_connect_v6 E fd ip port ud fl)"
    "rejects P (ffi_prep_recv E fd n flags ud fl)"
    "rejects P (ffi_prep_send E fd buf sz start flags ud fl)"
  unfolding ffi_prep_openat_def ffi_prep_read_def ffi_prep_write_def ffi_prep_connect_v4_def
    ffi_prep_connect_v6_def ffi_prep_recv_def ffi_prep_send_def ffi_defs
  by (intro rejects_rules; simp add: bad)+

text \<open>What a method does once its call of the Rust function rejects.\<close>

lemma methods_reject:
  assumes nx: "\<And>s. P s \<Longrightarrow> P (snd (get_next_user_data s))"
  shows "(\<And>ud i. rejects P (ffi_prep_read E i n off ud (sqe_flags_or_0 fl))) \<Longrightarrow>
      rejects P (prep_read E f n off fl)"
    "(\<And>ud i. rejects P (ffi_prep_write E i buf (case m of None \<Rightarrow> int (length (buf_bytes buf)) | Some k \<Rightarrow> k)
      (case start of None \<Rightarrow> 0 | Some k \<Rightarrow> k) off ud (sqe_flags_or_0 fl))) \<Longrightarrow>
      rejects P (prep_write E f buf off m start fl)"
    "(\<And>ud i. rejects P (ffi_prep_send E i buf (case m of None \<Rightarrow> int (length (buf_bytes buf)) | Some k \<Rightarrow> k)
      (case start of None \<Rightarrow> 0 | Some k \<Rightarrow> k) flags ud (sqe_flags_or_0 fl))) \<Longrightarrow>
      rejects P (prep_send E f buf m start flags fl)"
    "(\<And>ud i. rejects P (ffi_prep_recv E i n flags ud (sqe_flags_or_0 fl))) \<Longrightarrow>
      rejects P (prep_recv E f n flags fl)"
    "(\<And>ud i. rejects P (ffi_prep_connect_v4 E i (py_str_v4 v4) port ud (sqe_flags_or_0 fl))) \<Longrightarrow>
      rejects P (prep_connect_v4 E f v4 port fl)"
    "(\<And>ud i. rejects P (ffi_prep_connect_v6 E i v6 port ud (sqe_flags_or_0 fl))) \<Longrightarrow>
      rejects P (prep_connect_v6 E f v6 port fl)"
    "(\<And>ud i. rejects P (ffi_prep_openat E i path ud (openat_raw_flags ofl OR mode_value mode) perms
      (sqe_flags_or_0 fl))) \<Longrightarrow> rejects P (prep_openat E dir path mode ofl perms fl)"
    "(\<And>ud k. rejects P (ffi_prep_create_socket E domain k protocol ud (sqe_flags_or_0 fl))) \<Longrightarrow>
      rejects P (prep_create_socket E domain kind protocol nb fl)"
  unfolding prep_read_def prep_write_def prep_send_def prep_recv_def prep_connect_v4_def
    prep_connect_v6_def prep_openat_def prep_create_socket_def Let_def numbered_after
    numbered_def [symmetric]
  by (intro rejects_reads rejects_numbered nx reads_guardP reads_unwrap_file reads_openat_dirfd; assumption)+


text \<open>Calls of the Rust functions do not touch the objects of Python.\<close>

abbreviation same_py :: "('r, 'w, 'z) py_scheme \<Rightarrow> ('r, 'w, 'z) py_scheme \<Rightarrow> bool" where
  "same_py s t \<equiv> handles t = handles s \<and> files t = files s"

lemma same_py_refl_trans: "reflp same_py" "transp same_py"
  by (simp_all add: reflp_def transp_def)

lemma keeps_py:
  "keeps same_py get_next_user_data" "keeps same_py (autosubmit E e)"
  "keeps same_py (require_support c n)"
  by (simp_all add: keeps_def get_next_user_data_def autosubmit_def require_support_def bindP_def
      guardP_def split: option.split prod.split)

lemma keeps_py_close: "keeps same_py (ffi_prep_close E i ud fl)"
  unfolding ffi_prep_close_def ioring_prep_close_def
  by (intro keeps_intros keeps_py same_py_refl_trans)

lemma close_flag_upd:
  "close_called h s \<Longrightarrow> fst (perform E (Prep_Close (FdObj h) fl) s) =
     Inl (ValueError (HandleClosed (handle_fd h s)))"
  by (simp add: prep_close_obj bindP_assoc numbered_def bindP_def unwrap_file_app
      get_next_user_data_def close_called_def handle_fd_def del: unwrap_file.simps)

lemma numbered_closed_handle:
  assumes "close_called h s"
  shows "numbered (\<lambda>ud. bindP (unwrap_file (FdObj h)) (g ud)) s =
      (Inl (ValueError (HandleClosed (handle_fd h s))), snd (get_next_user_data s))"
proof -
  have "unwrap_file (FdObj h) (snd (get_next_user_data s)) =
      (Inl (ValueError (HandleClosed (handle_fd h s))), snd (get_next_user_data s))"
    using assms by (simp add: unwrap_file_app del: unwrap_file.simps)
  then show ?thesis
    by (simp add: numbered_def bindP_def get_next_user_data_def del: unwrap_file.simps)
qed

section \<open>Arguments that cannot be submitted\<close>

text \<open>
  Numbers outside the Rust argument's range, a \<open>bytearray\<close>, text that is no address, more bytes
  than the buffer has, and a buffer offset without a count (the count is then the whole buffer,
  which never fits behind a positive offset).
\<close>

definition bad_chunk :: "pybuf \<Rightarrow> int option \<Rightarrow> int option \<Rightarrow> bool" where
  "bad_chunk buf n start \<longleftrightarrow> (\<exists>bs. buf = ByteArray bs) \<or>
     (\<exists>k. n = Some k \<and> int (length (buf_bytes buf)) < k) \<or> (\<exists>k. n = Some k \<and> k < 0) \<or>
     (\<exists>k. start = Some k \<and> k < 0) \<or> (n = None \<and> (\<exists>k. start = Some k \<and> 0 < k))"

fun bad_arguments :: "request \<Rightarrow> bool" where
  "bad_arguments (Prep_Openat _ _ _ _ perms _) \<longleftrightarrow> perms < 0 \<or> 2 ^ 32 \<le> perms"
| "bad_arguments (Prep_Close _ _) \<longleftrightarrow> False"
| "bad_arguments (Prep_Read _ n off _) \<longleftrightarrow> off < -1 \<or> n < 0 \<or> 2 ^ 32 \<le> n"
| "bad_arguments (Prep_Write _ buf off n start _) \<longleftrightarrow> off < -1 \<or> bad_chunk buf n start"
| "bad_arguments (Prep_Create_Socket _ _ _ _ _) \<longleftrightarrow> False"
| "bad_arguments (Prep_Connect_V4 _ address port _) \<longleftrightarrow>
     ipv4_from_str (py_str_v4 address) = None \<or> port < 0 \<or> 2 ^ 16 \<le> port"
| "bad_arguments (Prep_Connect_V6 _ address port _) \<longleftrightarrow>
     ipv6_from_str address = None \<or> port < 0 \<or> 2 ^ 16 \<le> port"
| "bad_arguments (Prep_Recv _ n _ _) \<longleftrightarrow> n < 0 \<or> 2 ^ 32 \<le> n"
| "bad_arguments (Prep_Send _ buf n start _ _) \<longleftrightarrow> bad_chunk buf n start"

text \<open>No buffer of Python is as large as the address space.\<close>

fun buffer_length :: "request \<Rightarrow> nat" where
  "buffer_length (Prep_Write _ buf _ _ _ _) = length (buf_bytes buf)"
| "buffer_length (Prep_Send _ buf _ _ _ _) = length (buf_bytes buf)"
| "buffer_length _ = 0"

lemma converts_range:
  assumes "pyo3_laws P"
  shows "py_u32 P n = Inr w \<Longrightarrow> 0 \<le> n \<and> n < 2 ^ 32" "py_u16 P n = Inr w' \<Longrightarrow> 0 \<le> n \<and> n < 2 ^ 16"
    "py_usize P n = Inr w'' \<Longrightarrow> 0 \<le> n \<and> uint w'' = n" "py_bytes P b = Inr bs \<Longrightarrow> b = Bytes bs"
proof -
  show "py_usize P n = Inr w'' \<Longrightarrow> 0 \<le> n \<and> uint w'' = n"
    using assms by (auto simp: pyo3_laws_def converts_unsigned_def uint_word_of_int take_bit_int_eq_self split: if_splits)
  show "py_bytes P b = Inr bs \<Longrightarrow> b = Bytes bs"
    using assms by (cases b) (auto simp: pyo3_laws_def)
qed (use assms in \<open>auto simp: pyo3_laws_def converts_unsigned_def split: if_splits\<close>)

lemma bad_chunk_checked:
  assumes P: "pyo3_laws P" and bad: "bad_chunk buf n start" and len: "length (buf_bytes buf) < 2 ^ 63"
    and conv: "py_bytes P buf = Inr bs"
      "py_usize P (case n of None \<Rightarrow> int (length (buf_bytes buf)) | Some k \<Rightarrow> k) = Inr sz"
      "py_usize P (case start of None \<Rightarrow> 0 | Some k \<Rightarrow> k) = Inr off"
  shows "isl (check_write_buffer bs sz off)"
proof -
  have buf: "buf = Bytes bs" using converts_range(4) [OF P conv(1)] .
  have sz: "uint sz = (case n of None \<Rightarrow> int (length bs) | Some k \<Rightarrow> k)" "0 \<le> (case n of None \<Rightarrow> int (length bs) | Some k \<Rightarrow> k)"
    using converts_range(3) [OF P conv(2) [unfolded buf buf_bytes.simps]] by simp_all
  have off: "uint off = (case start of None \<Rightarrow> 0 | Some k \<Rightarrow> k)" "0 \<le> (case start of None \<Rightarrow> 0 | Some k \<Rightarrow> k)"
    using converts_range(3) [OF P conv(3)] by simp_all
  have u: "int (unat sz) = uint sz" "int (unat off) = uint off" by simp_all
  show ?thesis
  proof (cases "length bs < unat sz \<or> length bs < unat off")
    case True
    then show ?thesis by (auto simp: check_write_buffer_def)
  next
    case False
    then have le: "uint sz \<le> int (length bs)" "uint off \<le> int (length bs)"
      using u by linarith+
    have n: "n = None"
      using bad le sz off by (cases n; cases start) (auto simp: bad_chunk_def buf)
    have "\<exists>k. start = Some k \<and> 0 < k"
      using bad le sz off by (cases n; cases start) (auto simp: bad_chunk_def buf)
    with n sz(1) off(1) have "uint sz = int (length bs)" "0 < uint off" by auto
    with u have s: "unat sz = length bs" "0 < unat off" by linarith+
    have "unat (off + sz) = unat off + unat sz"
      using False s len by (intro unat_add_lem [THEN iffD1]) (simp add: buf)
    with False s show ?thesis by (auto simp: check_write_buffer_def Let_def)
  qed
qed

lemma rejects_refuse: "rejects P m \<Longrightarrow> rejects P (bindP (refuse_skip_success E w) (\<lambda>_. m))"
  by (simp add: rejects_def bindP_refuse_skip)

lemma rejects_isl: "isl r \<Longrightarrow> rejects P (bindP (liftP r) f)"
  by (cases r) (simp_all add: rejects_def bindP_liftP)

lemma ffi_bad:
  assumes P: "pyo3_laws (env_pyo3 E)"
  shows "perms < 0 \<or> 2 ^ 32 \<le> perms \<Longrightarrow> rejects Q (ffi_prep_openat E i path ud flags perms fl)"
    "n < 0 \<or> 2 ^ 32 \<le> n \<Longrightarrow> rejects Q (ffi_prep_read E i n off ud fl)"
    "n < 0 \<or> 2 ^ 32 \<le> n \<Longrightarrow> rejects Q (ffi_prep_recv E i n flags ud fl)"
    "ipv4_from_str ip = None \<or> port < 0 \<or> 2 ^ 16 \<le> port \<Longrightarrow>
       rejects Q (ffi_prep_connect_v4 E i ip port ud fl)"
    "ipv6_from_str ip = None \<or> port < 0 \<or> 2 ^ 16 \<le> port \<Longrightarrow>
       rejects Q (ffi_prep_connect_v6 E i ip port ud fl)"
  unfolding ffi_prep_openat_def ffi_prep_read_def ffi_prep_recv_def ffi_prep_connect_v4_def
    ffi_prep_connect_v6_def ioring_prep_connect_v4_def ioring_prep_connect_v6_def
  by (intro rejects_lift;
      use converts_range(1,2) [OF P] in \<open>force intro: rejects_require rejects_isl simp: parse_or_raise_def\<close>)+

lemma ffi_bad_chunk:
  assumes P: "pyo3_laws (env_pyo3 E)" and bad: "bad_chunk buf n start"
    and len: "length (buf_bytes buf) < 2 ^ 63"
  shows "rejects Q (ffi_prep_write E i buf (case n of None \<Rightarrow> int (length (buf_bytes buf)) | Some k \<Rightarrow> k)
      (case start of None \<Rightarrow> 0 | Some k \<Rightarrow> k) off ud fl)"
    "rejects Q (ffi_prep_send E i buf (case n of None \<Rightarrow> int (length (buf_bytes buf)) | Some k \<Rightarrow> k)
      (case start of None \<Rightarrow> 0 | Some k \<Rightarrow> k) flags ud fl)"
  unfolding ffi_prep_write_def ioring_prep_write_def ffi_prep_send_def ioring_prep_send_def
  by (intro rejects_lift rejects_require rejects_refuse rejects_isl bad_chunk_checked [OF P bad len];
      assumption)+

lemma ffi_unsupported:
  "rejects (\<lambda>s. \<not> probe (ring s) CODE_OpenAt) (ffi_prep_openat E i path ud k perms fl)"
  "rejects (\<lambda>s. \<not> probe (ring s) CODE_Close) (ffi_prep_close E i ud fl)"
  "rejects (\<lambda>s. \<not> probe (ring s) CODE_Read) (ffi_prep_read E i k off ud fl)"
  "rejects (\<lambda>s. \<not> probe (ring s) CODE_Write) (ffi_prep_write E i buf sz start off ud fl)"
  "rejects (\<lambda>s. \<not> probe (ring s) CODE_Socket) (ffi_prep_create_socket E i k protocol ud fl)"
  "rejects (\<lambda>s. \<not> probe (ring s) CODE_Connect) (ffi_prep_connect_v4 E i ip port ud fl)"
  "rejects (\<lambda>s. \<not> probe (ring s) CODE_Connect) (ffi_prep_connect_v6 E i ip port ud fl)"
  "rejects (\<lambda>s. \<not> probe (ring s) CODE_Recv) (ffi_prep_recv E i k flags ud fl)"
  "rejects (\<lambda>s. \<not> probe (ring s) CODE_Send) (ffi_prep_send E i buf sz start flags ud fl)"
  unfolding ffi_prep_openat_def ffi_prep_close_def ffi_prep_read_def ffi_prep_write_def
    ffi_prep_create_socket_def ffi_prep_connect_v4_def ffi_prep_connect_v6_def ffi_prep_recv_def
    ffi_prep_send_def ffi_defs
  by (intro rejects_lift rejects_unsupported; assumption)+

lemma rejects_guard_fail: "\<not> b \<Longrightarrow> rejects P (bindP (guardP b e) f)"
  by (simp add: rejects_def bindP_def guardP_def)

lemma rejects_bad:
  assumes P: "pyo3_laws (env_pyo3 E)" and bad: "bad_arguments req" and len: "buffer_length req < 2 ^ 63"
  shows "rejects (\<lambda>_. True) (perform E req)"
proof (cases req)
  case (Prep_Read f n off fl)
  show ?thesis
  proof (cases "off < -1")
    case True
    with Prep_Read show ?thesis by (auto simp: prep_read_def intro: rejects_guard_fail)
  next
    case False
    with Prep_Read bad show ?thesis by (auto intro!: methods_reject(1) ffi_bad [OF P])
  qed
next
  case (Prep_Write f buf off n start fl)
  show ?thesis
  proof (cases "off < -1")
    case True
    with Prep_Write show ?thesis by (auto simp: prep_write_def intro: rejects_guard_fail)
  next
    case False
    with Prep_Write bad len show ?thesis
      by (auto intro!: methods_reject(2) ffi_bad_chunk [OF P])
  qed
qed (use bad len in \<open>auto intro!: methods_reject ffi_bad [OF P] ffi_bad_chunk [OF P]\<close>)

lemma rejects_unsupported_request:
  "rejects (\<lambda>s. \<not> probe (ring s) (code_of req)) (perform E req)"
  by (cases req) (auto intro!: methods_reject rejects_prep_close ffi_unsupported)

section \<open>Submitting to a closed ring\<close>

abbreviation ring_closed :: "('r, 'z) st_scheme \<Rightarrow> bool" where
  "ring_closed s \<equiv> the_io_uring (ring s) = None"

lemma rejects_closed: "rejects ring_closed (autosubmit E e)"
  by (simp add: rejects_def autosubmit_closed)

lemma rejects_closed_alloc:
  "rejects ring_closed (bindP (alloc bs) (\<lambda>b. bindP (or_drop b (autosubmit E (e b))) (f b)))"
  by (rule rejects_alloc [where Q = ring_closed]) (simp_all add: rejects_closed alloc_def autosubmit_closed)

lemma rejects_closed_sockaddr: "rejects ring_closed (do_sockaddr_submit E fd addr ud fl)"
  unfolding do_sockaddr_submit_def refuse_eq Let_def
  by (rule rejects_alloc [where Q = ring_closed])
    (simp_all add: rejects_closed alloc_def autosubmit_closed rejects_def)

lemma ffi_closed:
  "rejects ring_closed (ffi_prep_openat E i path ud k perms fl)"
  "rejects ring_closed (ffi_prep_close E i ud fl)"
  "rejects ring_closed (ffi_prep_read E i k off ud fl)"
  "rejects ring_closed (ffi_prep_write E i buf sz start off ud fl)"
  "rejects ring_closed (ffi_prep_create_socket E i k protocol ud fl)"
  "rejects ring_closed (ffi_prep_connect_v4 E i ip port ud fl)"
  "rejects ring_closed (ffi_prep_connect_v6 E i ip port ud fl)"
  "rejects ring_closed (ffi_prep_recv E i k flags ud fl)"
  "rejects ring_closed (ffi_prep_send E i buf sz start flags ud fl)"
  unfolding ffi_prep_openat_def ffi_prep_close_def ffi_prep_read_def ffi_prep_write_def
    ffi_prep_create_socket_def ffi_prep_connect_v4_def ffi_prep_connect_v6_def ffi_prep_recv_def
    ffi_prep_send_def ffi_defs
  by (intro rejects_lift rejects_require rejects_refuse rejects_closed rejects_closed_alloc
      rejects_closed_sockaddr)+

lemma rejects_closed_request: "rejects ring_closed (perform E req)"
  by (cases req) (auto intro!: methods_reject rejects_prep_close ffi_closed simp: get_next_user_data_def)

section \<open>Properties\<close>

text \<open>C25: a submission that owns memory is never made with the \<open>skip_success\<close> flag, whose success
  would post no completion and so never release the memory. Given flags that \<open>make_sqe_flags\<close> made
  with \<open>skip_success\<close> and any others, each of the seven methods that hand memory to the ring raises,
  and the submission queue, the table of owned data and the memory are as before.\<close>

theorem skip_success_refused:
  assumes F: "flags_laws (env_flags E)" and P: "pyo3_laws (env_pyo3 E)"
    and req: "owns_data req"
      "flags_of req = Some (make_sqe_flags (env_flags E) b1 b2 b3 b4 b5 b6 True)"
    and mem: "\<forall>b \<in> dom (heap s). b < brk s"
  shows "isl (fst (perform E req s)) \<and>
    (let t = snd (perform E req s) in the_io_uring (ring t) = the_io_uring (ring s) \<and>
       owned_data (ring t) = owned_data (ring s) \<and> heap t = heap s)"
proof -
  have bad: "skips_success (env_flags E) w" if "py_u8 (env_pyo3 E) (sqe_flags_or_0 (flags_of req)) = Inr w" for w
    using made_flags_skip [OF F P, of b1 b2 b3 b4 b5 b6 True w] that req(2)
    by (simp add: sqe_flags_or_0_def)
  have "rejects (\<lambda>_. True) (perform E req)"
    using req(1) bad by (cases req) (simp_all add: methods_reject ffi_skip)
  from rejectsD [OF this, of s] mem show ?thesis
    by (simp add: untouched_def fresh_heap_def Let_def)
qed

theorem skip_success_refused_witness:
  "isl (fst (perform sample_env (Prep_Read (FdInt 3) 4 (-1)
      (Some (make_sqe_flags linux_flags False False False False False False True))) sample_state))"
  using skip_success_refused [of sample_env "Prep_Read (FdInt 3) 4 (-1)
      (Some (make_sqe_flags linux_flags False False False False False False True))"
      False False False False False False sample_state]
  by (simp add: sample_env_laws linux_flags_eq sample_state_def)



text \<open>\<open>prep_openat\<close> treats a closed handle as an open one: a handle given as the directory is
  its descriptor, whether or not the handle has been closed.\<close>

lemma openat_ignores_closed:
  "perform E (Prep_Openat (Some (FdObj h)) path mode flags perms fl) s =
   perform E (Prep_Openat (Some (FdInt (handle_fd h s))) path mode flags perms fl) s"
  by (simp add: prep_openat_def bindP_app)

text \<open>C29: \<open>prep_close\<close> marks its handle exactly when the close was queued. On success the handle is
  closed, keeps its descriptor, and cannot be submitted for closing again; on any failure no handle
  has changed, so the descriptor is not leaked. In both cases no other handle and no file has
  changed: marking makes no system call.\<close>

theorem prep_close_marks:
  "(let (x, t) = perform E (Prep_Close (FdObj h) fl) s in
     files t = files s \<and>
     handles t = (if isl x then handles s else (handles s)(h := (handles s h)\<lparr>close_flag := True\<rparr>)) \<and>
     (isl x \<or> fst (perform E (Prep_Close (FdObj h) fl') t) =
        Inl (ValueError (HandleClosed (handle_fd h s)))))"
proof -
  obtain s1 where num: "get_next_user_data s = (Inr (user_data_counter (ring s)), s1)"
    by (simp add: get_next_user_data_def)
  with keepsD [OF keeps_py(1), of s] have s1: "same_py s s1" by simp
  obtain y t where op: "ffi_prep_close E (handle_fd h s1) (user_data_counter (ring s))
      (sqe_flags_or_0 fl) s1 = (y, t)" by (metis prod.exhaust)
  with keepsD [OF keeps_py_close, where s = s1] s1 have t: "same_py s t" by (metis snd_conv)
  show ?thesis
  proof (cases "close_called h s1 \<or> isl y")
    case True
    with num op s1 t show ?thesis
      by (cases y) (auto simp: prep_close_obj bindP_assoc numbered_def bindP_def unwrap_file_app
          simp del: unwrap_file.simps)
  next
    case False
    then obtain z where y: "y = Inr z" by (cases y) auto
    let ?t = "t\<lparr>handles := (handles t)(h := (handles t h)\<lparr>close_flag := True\<rparr>)\<rparr>"
    have run: "perform E (Prep_Close (FdObj h) fl) s = (Inr (user_data_counter (ring s)), ?t)"
      using num op y False
      by (simp add: prep_close_obj bindP_assoc numbered_def bindP_def unwrap_file_app
          mark_closed_def del: unwrap_file.simps)
    have "close_called h ?t" "handle_fd h ?t = handle_fd h s"
      using t by (simp_all add: close_called_def handle_fd_def)
    then show ?thesis using t run close_flag_upd [of h ?t E fl'] by simp
  qed
qed



text \<open>\<open>make_io_ring\<close> on every path. A negative \<open>cq_size\<close> or \<open>sqpoll_idle_ms\<close> counts as not
  given; a number that is too large, or a negative number of entries, raises before anything is
  created; an error of the creation is the outcome; and otherwise the block runs once on the new
  ring, its outcome is the outcome, and the ring is closed after it whatever that is.\<close>

lemma make_io_ring_behaviour:
  assumes "pyo3_laws (env_pyo3 E)"
  shows "make_io_ring E n cq idle single auto body s =
    (let c = max 0 (case cq of None \<Rightarrow> 0 | Some k \<Rightarrow> k);
         i = max 0 (case idle of None \<Rightarrow> 0 | Some k \<Rightarrow> k) in
     if n < 0 \<or> 2 ^ 32 \<le> n \<or> 2 ^ 32 \<le> c \<or> 2 ^ 32 \<le> i then (Inl OverflowError, s)
     else (case create_io_ring E (word_of_int n) (word_of_int c) (word_of_int i) single auto of
         Inl e \<Rightarrow> (Inl e, s)
       | Inr g \<Rightarrow> (case body (s\<lparr>ring := g\<rparr>) of
           (x, t) \<Rightarrow> (x, t\<lparr>ring := (ring t)\<lparr>the_io_uring := None\<rparr>\<rparr>))))"
proof -
  have "positive_or_0 z = max 0 (case z of None \<Rightarrow> 0 | Some k \<Rightarrow> k)" for z
    by (auto simp: positive_or_0_def split: option.split)
  then show ?thesis
    by (auto simp: make_io_ring_eq [OF assms] Let_def close_ring_def not_less split: sum.split prod.split)
qed

text \<open>A kernel that takes submissions but fails every wait.\<close>

definition failing_wait_env :: "(sim, int list) env" where
  "failing_wait_env = sample_env\<lparr>env_ring := sim_uring\<lparr>ur_submit_and_wait := (\<lambda>n r m. (Inl 4, r, m))\<rparr>\<rparr>"


end
