(* ===== verification/Closed_Ring.thy ===== *)
theory Closed_Ring
  imports Api_Errors Api_Run
begin

text \<open>
  What is left of a ring after \<open>close\<close>: an object that answers every call with an exception and
  keeps the memory of the operations nobody has reaped.
\<close>

lemma untouched_same_ring: "same_ring s t \<Longrightarrow> untouched s t"
  by (simp add: same_ring_def untouched_def)

abbreviation inert :: "('r, 'z) st_scheme \<Rightarrow> ('r, 'z) st_scheme \<Rightarrow> bool" where
  "inert s t \<equiv> ring_closed s \<longrightarrow> untouched s t"

lemma inert_trans: "inert s t \<Longrightarrow> inert t u \<Longrightarrow> inert s u"
  using untouched_trans [of s t u] by (simp add: untouched_def)

lemma inert_refl_trans: "reflp inert" "transp inert"
  by (rule reflpI, simp) (rule transpI, erule (1) inert_trans)

lemma inert_eventfd: "keeps inert (os_eventfd_call E i fl)"
  by (intro keepsI impI untouched_same_ring)
    (simp add: eventfd_call_same [unfolded same_ring_def] same_ring_def)

lemma inert_basic:
  "keeps inert (submit E)" "keeps inert (wait_cqes E n)" "keeps inert (wait_with_timeout E sec nsec)"
  "keeps inert (register_eventfd E fd)" "keeps inert close_ring"
  by (simp_all add: keeps_def closed_ring_calls)

lemma inert_calls:
  "keeps inert (io_submit E)" "keeps inert (submit_and_wait E n)"
  "keeps inert (submit_and_wait_with_timeout E sec nsec)" "keeps inert (io_register_eventfd E f)"
  unfolding io_submit_def submit_and_wait_def submit_and_wait_with_timeout_def
    io_register_eventfd_def
  by (intro keeps_intros inert_basic inert_eventfd inert_refl_trans;
      cases f; simp add: inert_eventfd keeps_intros inert_refl_trans)+

text \<open>One call.\<close>

definition nothing_given :: "outcome \<Rightarrow> bool" where
  "nothing_given v \<longleftrightarrow> (\<forall>u. v \<noteq> Value (Inr u)) \<and> (\<forall>evs. v \<noteq> Events (Inr evs))"

lemma inert_step:
  assumes "api_step E s l t" "ring_closed s"
  shows "untouched s t \<and> nothing_given (snd l)"
proof -
  have kept: "untouched s t" if "keeps inert m" "m s = (x, t)" for m :: "(('a, 'b, 'c) py_scheme, 'd) prog" and x
    using keepsD [OF that(1), of s] that(2) assms(2) by simp
  from assms(1) show ?thesis
  proof cases
    case (step_request req x)
    with rejectsD [OF rejects_closed_request assms(2), of E req] show ?thesis
      by (cases x) (simp_all add: nothing_given_def)
  next
    case (step_submit x)
    then show ?thesis using kept [OF inert_calls(1)] by (simp add: nothing_given_def)
  next
    case (step_wait n x)
    then show ?thesis using kept [OF inert_calls(2)] by (simp add: nothing_given_def)
  next
    case (step_wait_timeout sec nsec x)
    then show ?thesis using kept [OF inert_calls(3)] by (simp add: nothing_given_def)
  next
    case (step_reap x)
    then show ?thesis using closed_ring_calls(5) [OF assms(2), of E] by (auto simp: nothing_given_def)
  next
    case (step_eventfd f x)
    then show ?thesis using kept [OF inert_calls(4)] by (simp add: nothing_given_def)
  next
    case (step_close x)
    then show ?thesis using kept [OF inert_basic(5)] by (simp add: nothing_given_def)
  next
    case (step_handle u h)
    then show ?thesis using same_ring_handle [of E u h s]
      by (simp add: nothing_given_def untouched_same_ring same_ring_def)
  next
    case (step_event ev x)
    then show ?thesis using same_ring_event [of ev s]
      by (simp add: nothing_given_def untouched_same_ring same_ring_def)
  next
    case step_elsewhere
    then show ?thesis by (simp add: nothing_given_def untouched_same_ring)
  qed
qed

lemma inert_run:
  "api_run E s ls t \<Longrightarrow> ring_closed s \<Longrightarrow> untouched s t \<and> (\<forall>l \<in> set ls. nothing_given (snd l))"
proof (induction rule: api_run.induct)
  case (run_nil s)
  then show ?case by simp
next
  case (run_snoc s ls t l u)
  then have st: "untouched s t" and given: "\<forall>l \<in> set ls. nothing_given (snd l)" by simp_all
  with run_snoc.prems have "ring_closed t" by (simp add: untouched_def)
  from inert_step [OF run_snoc.hyps(2) this] untouched_trans [OF st] given show ?case by auto
qed

text \<open>C34: a closed ring is closed for good and inert. In every history of a ring that has been closed,
  no \<open>prep_\<close> method returns and no completion is reported, whatever is called in whatever order;
  the ring stays closed; and all memory stays as it was: what uncompleted operations use is
  neither freed nor changed, and no refused call leaves anything behind.\<close>

theorem closed_ring_inert:
  assumes "the_io_uring (ring s) = None" "\<forall>b \<in> dom (heap s). b < brk s" "api_run E s ls t"
  shows "the_io_uring (ring t) = None \<and> owned_data (ring t) = owned_data (ring s) \<and>
    heap t = heap s \<and> (\<forall>(c, v) \<in> set ls. (\<forall>u. v \<noteq> Value (Inr u)) \<and> (\<forall>evs. v \<noteq> Events (Inr evs)))"
  using inert_run [OF assms(3,1)] assms(1,2)
  by (auto simp: untouched_def fresh_heap_def nothing_given_def)

theorem closed_ring_inert_witness:
  "\<exists>ls t. api_run sample_env (snd (close_ring sample_state)) ls t \<and> length ls = 5 \<and>
     heap t = heap sample_state \<and> (\<forall>(c, v) \<in> set ls. \<forall>u. v \<noteq> Value (Inr u))"
proof -
  let ?s = "snd (close_ring sample_state)"
  have "case exec_calls sample_env sample_calls ([], ?s) of None \<Rightarrow> False
    | Some (ls, t) \<Rightarrow> length ls = 5" by code_simp
  then obtain ls t where "exec_calls sample_env sample_calls ([], ?s) = Some (ls, t)" "length ls = 5"
    by (auto split: option.splits)
  then have run: "api_run sample_env ?s ls t" using exec_calls_run [OF run_nil] by blast
  have "the_io_uring (ring ?s) = None" "\<forall>b \<in> dom (heap ?s). b < brk ?s" "heap ?s = heap sample_state"
    using sample_heap by (simp_all add: close_ring_def)
  with closed_ring_inert [OF _ _ run] run \<open>length ls = 5\<close> show ?thesis
    by (intro exI [of _ ls] exI [of _ t]) auto
qed

text \<open>C21: the whole life of a ring made by \<open>make_io_ring\<close>, whose block only uses it through its
  methods. Either the call raises before the block runs and nothing has changed, or the outcome is
  that of the block and the ring is closed after it, whatever that is. From then on no call of any
  history gets anything from the ring, and every operation that was still in flight when the block
  ended keeps its memory allocated, large enough and owned: closing a ring pulls no memory from
  under the kernel.\<close>

theorem make_io_ring_scope:
  fixes s v :: "('r, 'w, 'z) py_scheme"
  assumes P: "pyo3_laws (env_pyo3 E)" and U: "uring_laws (env_ring E) live"
    and mem: "\<forall>b \<in> dom (heap s). b < brk s"
    and block: "\<forall>g. \<exists>ls. api_run E (s\<lparr>ring := g\<rparr>) ls (snd (body (s\<lparr>ring := g\<rparr>))) \<and> length ls \<le> 2 ^ 63"
    and made: "make_io_ring E n cq idle single auto body s = (x, u)" and later: "api_run E u ls v"
  shows "(isl x \<and> u = s) \<or>
    (\<exists>g t. body (s\<lparr>ring := g\<rparr>) = (x, t) \<and> the_io_uring (ring v) = None \<and>
       (\<forall>(c, w) \<in> set ls. (\<forall>a. w \<noteq> Value (Inr a)) \<and> (\<forall>evs. w \<noteq> Events (Inr evs))) \<and>
       (\<forall>e \<in># ring_live live t. \<forall>b \<in> sqe_blocks e. \<exists>d bs.
          owned_data (ring v) (sqe_user_data e) = Some d \<and> b \<in> set (owned_blocks d) \<and>
          heap v b = Some bs \<and> op_fits (op_of e) bs))"
proof (cases "isl x \<and> u = s")
  case False
  with made obtain m c i g t where g: "create_io_ring E m c i single auto = Inr g"
    and t: "body (s\<lparr>ring := g\<rparr>) = (x, t)" and u: "u = snd (close_ring t)"
    by (auto simp: make_io_ring_eq [OF P] Let_def split: if_splits sum.splits prod.splits)
  obtain hs where hs: "api_run E (s\<lparr>ring := g\<rparr>) hs t" "length hs \<le> 2 ^ 63"
    using block t by (metis snd_conv)
  have inv: "ring_inv live t"
    by (rule created_run_inv [OF U _ _ hs]) (use g mem in simp_all)
  have closed: "ring_closed u" and kept: "heap u = heap t" "owned_data (ring u) = owned_data (ring t)"
    "brk u = brk t"
    by (simp_all add: u close_ring_def)
  have "fresh_heap u" using inv kept by (simp add: ring_inv_def mem_ok_def fresh_heap_def)
  with inert_run [OF later closed] kept have v: "the_io_uring (ring v) = None"
    "owned_data (ring v) = owned_data (ring t)" "heap v = heap t"
    and given: "\<forall>l \<in> set ls. nothing_given (snd l)" by (simp_all add: untouched_def closed)
  have "\<forall>e \<in># ring_live live t. \<forall>b \<in> sqe_blocks e. \<exists>d bs.
      owned_data (ring v) (sqe_user_data e) = Some d \<and> b \<in> set (owned_blocks d) \<and>
      heap v b = Some bs \<and> op_fits (op_of e) bs"
    using inv v by (simp add: ring_inv_def covered_def)
  moreover have "\<forall>(c, w) \<in> set ls. (\<forall>a. w \<noteq> Value (Inr a)) \<and> (\<forall>evs. w \<noteq> Events (Inr evs))"
    using given by (auto simp: nothing_given_def)
  ultimately show ?thesis using t v(1) by blast
qed simp

theorem make_io_ring_scope_witness:
  "\<exists>u ls v. make_io_ring sample_env 8 None None True True
       (perform sample_env (Prep_Read (FdInt 3) 4 (-1) None)) sample_state = (Inr 0, u) \<and>
     api_run sample_env u ls v \<and> length ls = 5 \<and> the_io_uring (ring v) = None"
proof -
  let ?body = "perform sample_env (Prep_Read (FdInt 3) 4 (-1) None)"
  obtain x u where made: "make_io_ring sample_env 8 None None True True ?body sample_state = (x, u)"
    by (metis prod.exhaust)
  have "fst (make_io_ring sample_env 8 None None True True ?body sample_state) = Inr 0" by code_simp
  with made have x: "x = Inr 0" by simp
  have "case exec_calls sample_env sample_calls ([], snd (make_io_ring sample_env 8 None None True True
      ?body sample_state)) of None \<Rightarrow> False | Some (ls, t) \<Rightarrow> length ls = 5" by code_simp
  with made obtain ls v where "exec_calls sample_env sample_calls ([], u) = Some (ls, v)" "length ls = 5"
    by (auto split: option.splits)
  then have run: "api_run sample_env u ls v" using exec_calls_run [OF run_nil] by blast
  have "\<exists>ls. api_run sample_env (sample_state\<lparr>ring := g\<rparr>) ls (snd (?body (sample_state\<lparr>ring := g\<rparr>))) \<and>
      length ls \<le> 2 ^ 63" for g
    using run_snoc [OF run_nil step_request [OF prod.collapse [symmetric]]] by fastforce
  then have "\<forall>g. \<exists>ls. api_run sample_env (sample_state\<lparr>ring := g\<rparr>) ls
      (snd (?body (sample_state\<lparr>ring := g\<rparr>))) \<and> length ls \<le> 2 ^ 63" by blast
  from make_io_ring_scope [OF sample_env_laws(2,3) sample_heap this made run] x made run \<open>length ls = 5\<close>
  show ?thesis by (intro exI [of _ u] exI [of _ ls] exI [of _ v]) auto
qed

end
