(* ===== verification/Connect_Props.thy ===== *)
theory Connect_Props
  imports Ffi
begin

text \<open>
  The addresses that reach \<open>do_sockaddr_submit\<close>: whole ones only, and for an address object of
  Python the one it stands for.
\<close>

lemma bindP_parsed:
  "bindP (liftP (parse_or_raise None)) f = raise_exn (ValueError InvalidAddress)"
  "bindP (liftP (parse_or_raise (Some x))) f = f x"
  by (simp_all add: parse_or_raise_def bindP_liftP fun_eq_iff)

text \<open>An \<open>ipaddress.IPv4Address\<close> survives the trip through text. For the text Python prints for
  the object, \<open>ioring_prep_connect_v4\<close> submits a connect to exactly the four octets of the object
  and the given port: no valid address object is refused, and none connects anywhere else.\<close>

lemma connect_v4_object:
  "ioring_prep_connect_v4 E fd (py_str_v4 (V4Obj a b c d)) port ud fl =
     bindP (require_support CODE_Connect ''connect'')
       (\<lambda>_. do_sockaddr_submit E fd (SockV4 [a, b, c, d] port) ud fl)"
  unfolding ioring_prep_connect_v4_def ipv4_str_roundtrip
  by (simp add: bindP_parsed)


end
