(* ===== verification/Api_Accept.thy ===== *)
theory Api_Accept
  imports Api_Errors
begin

text \<open>
  Exactly which requests are accepted. While the ring is open and an entry can be queued, a method
  returns normally if and only if its request is well formed: the arguments are in the ranges of the
  Rust types, the chunk is within its buffer, the flags are allowed, the file is open and the
  operation is supported. Otherwise it raises, and nothing is left behind.
\<close>

section \<open>A ring that takes an entry\<close>

text \<open>There is room in the submission queue, or the automatic submit makes some.\<close>

definition takes_entry :: "('r, 'w) env \<Rightarrow> ('r, 'z) st_scheme \<Rightarrow> bool" where
  "takes_entry E s \<longleftrightarrow> (\<exists>r. the_io_uring (ring s) = Some r \<and> (\<forall>e. ur_push (env_ring E) e r \<noteq> None \<or>
     (autosubmit_on (ring s) \<and> (\<forall>m. \<exists>n r' m'. ur_submit (env_ring E) r m = (Inr n, r', m') \<and>
        ur_push (env_ring E) e r' \<noteq> None))))"

lemma takes_entry_queues:
  assumes "takes_entry E s"
  shows "\<exists>t. autosubmit E e s = (Inr (), t)"
proof -
  from assms obtain r where open_ring: "the_io_uring (ring s) = Some r" and room:
    "ur_push (env_ring E) e r \<noteq> None \<or> (autosubmit_on (ring s) \<and> (\<exists>n r' m'.
       ur_submit (env_ring E) r (heap s) = (Inr n, r', m') \<and> ur_push (env_ring E) e r' \<noteq> None))"
    unfolding takes_entry_def by blast
  show ?thesis
    using room
  proof (cases "ur_push (env_ring E) e r")
    case (Some r')
    then show ?thesis by (simp add: autosubmit_def open_ring autosubmit_loop.simps)
  next
    case None
    with room obtain n r' m' r'' where "autosubmit_on (ring s)"
      "ur_submit (env_ring E) r (heap s) = (Inr n, r', m')" "ur_push (env_ring E) e r' = Some r''" by auto
    with None show ?thesis
      by (simp add: autosubmit_def open_ring autosubmit_loop.simps [of _ _ _ False]
          autosubmit_loop.simps [of _ _ _ True])
  qed
qed

text \<open>The state in which a method submits: what the kernel supports is \<open>K\<close>.\<close>

definition ready :: "('r, 'w) env \<Rightarrow> (opcode \<Rightarrow> bool) \<Rightarrow> ('r, 'z) st_scheme \<Rightarrow> bool" where
  "ready E K s \<longleftrightarrow> takes_entry E s \<and> probe (ring s) = K"

lemma ready_next [simp]: "ready E K (snd (get_next_user_data s)) = ready E K s"
  by (simp add: ready_def takes_entry_def get_next_user_data_def)

lemma ready_alloc: "ready E K s \<Longrightarrow> alloc bs s = (x, t) \<Longrightarrow> ready E K t"
  by (auto simp: ready_def takes_entry_def alloc_def)

section \<open>Programs that decide\<close>

text \<open>Run from \<open>s\<close>, the program returns normally when \<open>C\<close> holds, and otherwise raises and leaves
  nothing behind.\<close>

definition decides ::
  "('r, 'z) st_scheme \<Rightarrow> bool \<Rightarrow> (exn + 'a) \<times> ('r, 'z) st_scheme \<Rightarrow> bool" where
  "decides s C out \<longleftrightarrow> (if C then \<not> isl (fst out) else isl (fst out) \<and> untouched s (snd out))"

definition accepts ::
  "(('r, 'z) st_scheme \<Rightarrow> bool) \<Rightarrow> bool \<Rightarrow> (('r, 'z) st_scheme, 'a) prog \<Rightarrow> bool" where
  "accepts P C m \<longleftrightarrow> (\<forall>s. P s \<longrightarrow> decides s C (m s))"

named_theorems accepts_intros

lemma accepts_lift [accepts_intros]:
  "(\<And>x. r = Inr x \<Longrightarrow> accepts P (C x) (f x)) \<Longrightarrow> accepts P (\<exists>x. r = Inr x \<and> C x) (bindP (liftP r) f)"
  by (cases r) (simp_all add: accepts_def decides_def bindP_liftP)

lemma accepts_require [accepts_intros]:
  "accepts (ready E K) C m \<Longrightarrow> accepts (ready E K) (K c \<and> C) (bindP (require_support c n) (\<lambda>_. m))"
  by (auto simp: accepts_def decides_def bindP_require_support ready_def)

lemma accepts_refuse [accepts_intros]:
  "accepts P C m \<Longrightarrow>
     accepts P (\<not> skips_success (env_flags E) w \<and> C) (bindP (refuse_skip_success E w) (\<lambda>_. m))"
  by (auto simp: accepts_def decides_def bindP_refuse_skip)

lemma accepts_queues [accepts_intros]: "accepts (ready E K) True (autosubmit E e)"
  using takes_entry_queues [of E _ e] by (fastforce simp: accepts_def decides_def ready_def)

lemma accepts_owned [accepts_intros]:
  "accepts (ready E K) True (bindP (alloc bs) (\<lambda>b.
     bindP (or_drop b (autosubmit E (e b))) (\<lambda>_. modP (g b))))"
  unfolding accepts_def
proof (intro allI impI)
  fix s :: "('a, 'b) st_scheme" assume s: "ready E K s"
  obtain b s1 where al: "alloc bs s = (Inr b, s1)" by (simp add: alloc_def)
  with ready_alloc [OF s al] takes_entry_queues [of E s1 "e b"] obtain t
    where "autosubmit E (e b) s1 = (Inr (), t)" by (auto simp: ready_def)
  with al show "decides s True (bindP (alloc bs) (\<lambda>b.
     bindP (or_drop b (autosubmit E (e b))) (\<lambda>_. modP (g b))) s)"
    by (simp add: decides_def bindP_def or_drop_def)
qed

lemma accepts_sockaddr [accepts_intros]:
  "accepts (ready E K) (\<not> skips_success (env_flags E) w) (do_sockaddr_submit E fd addr ud w)"
proof (cases "skips_success (env_flags E) w")
  case True
  with rejects_sockaddr_skip [OF this, of "ready E K"] show ?thesis
    by (simp add: accepts_def decides_def rejects_def)
next
  case False
  then have "accepts (ready E K) True (do_sockaddr_submit E fd addr ud w)"
    unfolding do_sockaddr_submit_def add_owned_sockaddr_def Let_def refuse_eq
    by (simp add: accepts_intros)
  with False show ?thesis by simp
qed

section \<open>Ranges and chunks\<close>

abbreviation is_i32 :: "int \<Rightarrow> bool" where
  "is_i32 n \<equiv> - (2 ^ 31) \<le> n \<and> n < 2 ^ 31"

abbreviation is_u32 :: "int \<Rightarrow> bool" where
  "is_u32 n \<equiv> 0 \<le> n \<and> n < 2 ^ 32"

lemma pyo3_accepts:
  assumes "pyo3_laws P"
  shows "py_i32 P n = Inr w32 \<longleftrightarrow> is_i32 n \<and> w32 = word_of_int n"
    "py_i64 P n = Inr w64 \<longleftrightarrow> - (2 ^ 63) \<le> n \<and> n < 2 ^ 63 \<and> w64 = word_of_int n"
    "py_u32 P n = Inr v32 \<longleftrightarrow> is_u32 n \<and> v32 = word_of_int n"
    "py_u16 P n = Inr v16 \<longleftrightarrow> 0 \<le> n \<and> n < 2 ^ 16 \<and> v16 = word_of_int n"
    "py_u8 P n = Inr v8 \<longleftrightarrow> 0 \<le> n \<and> n < 2 ^ 8 \<and> v8 = word_of_int n"
    "py_usize P n = Inr vs \<longleftrightarrow> 0 \<le> n \<and> n < 2 ^ 64 \<and> vs = word_of_int n"
    "py_bytes P buf = Inr bs \<longleftrightarrow> buf = Bytes bs"
  using assms unfolding pyo3_laws_def converts_signed_def converts_unsigned_def
  by (auto split: if_splits) (cases buf; auto)+

text \<open>The chunk of a buffer that a write or a send can transmit.\<close>

fun chunk_ok :: "pybuf \<Rightarrow> int option \<Rightarrow> int option \<Rightarrow> bool" where
  "chunk_ok (ByteArray bs) n start \<longleftrightarrow> False"
| "chunk_ok (Bytes bs) n start \<longleftrightarrow>
     (let n = (case n of None \<Rightarrow> int (length bs) | Some k \<Rightarrow> k);
          start = (case start of None \<Rightarrow> 0 | Some k \<Rightarrow> k)
      in 0 \<le> n \<and> 0 \<le> start \<and> start + n \<le> int (length bs))"

lemma checked_iff:
  fixes sz off :: usize
  assumes "length bs < 2 ^ 63"
  shows "(\<exists>e. check_write_buffer bs sz off = Inr e \<and> (\<exists>bytes. slice_range bs off e = Inr bytes)) \<longleftrightarrow>
    unat off + unat sz \<le> length bs"
proof (cases "unat sz \<le> length bs \<and> unat off \<le> length bs")
  case True
  with assms have "unat (off + sz) = unat off + unat sz"
    by (intro unat_add_lem [THEN iffD1]) simp
  with True show ?thesis by (auto simp: check_write_buffer_def slice_range_def Let_def)
next
  case False
  then show ?thesis by (auto simp: check_write_buffer_def)
qed

lemma chunk_accepts:
  assumes P: "pyo3_laws P" and len: "length (buf_bytes buf) < 2 ^ 63"
    and m: "m = (case n of None \<Rightarrow> int (length (buf_bytes buf)) | Some k \<Rightarrow> k)"
    and k: "k = (case start of None \<Rightarrow> 0 | Some k \<Rightarrow> k)"
  shows "chunk_ok buf n start \<longleftrightarrow> (\<exists>bs sz off e bytes. py_bytes P buf = Inr bs \<and> py_usize P m = Inr sz \<and>
    py_usize P k = Inr off \<and> check_write_buffer bs sz off = Inr e \<and> slice_range bs off e = Inr bytes)"
proof (cases buf)
  case (Bytes bs)
  have ok: "chunk_ok buf n start \<longleftrightarrow> 0 \<le> m \<and> 0 \<le> k \<and> k + m \<le> int (length bs)"
    by (auto simp: Bytes m k split: option.splits)
  have len: "length bs < 2 ^ 63" "int (length bs) < 9223372036854775808" using len by (simp_all add: Bytes)
  have nat: "unat (word_of_int z :: usize) = nat z" if "0 \<le> z" "z < 2 ^ 64" for z
    using that by (simp add: unat_eq_nat_uint uint_word_of_int)
  have "(\<exists>bs sz off e bytes. py_bytes P buf = Inr bs \<and> py_usize P m = Inr sz \<and> py_usize P k = Inr off \<and>
      check_write_buffer bs sz off = Inr e \<and> slice_range bs off e = Inr bytes) \<longleftrightarrow>
    0 \<le> m \<and> m < 2 ^ 64 \<and> 0 \<le> k \<and> k < 2 ^ 64 \<and>
      (\<exists>e. check_write_buffer bs (word_of_int m) (word_of_int k) = Inr e \<and>
         (\<exists>bytes. slice_range bs (word_of_int k) e = Inr bytes))"
    by (auto simp: Bytes pyo3_accepts [OF P])
  also have "\<dots> \<longleftrightarrow> 0 \<le> m \<and> m < 2 ^ 64 \<and> 0 \<le> k \<and> k < 2 ^ 64 \<and> nat k + nat m \<le> length bs"
    by (simp only: checked_iff [OF len(1)] nat cong: conj_cong)
  also have "\<dots> \<longleftrightarrow> 0 \<le> m \<and> 0 \<le> k \<and> k + m \<le> int (length bs)"
    using len(2) by auto
  finally show ?thesis using ok by blast
qed (simp add: pyo3_accepts [OF P])

lemma accepts_cong: "accepts P C m \<Longrightarrow> C = D \<Longrightarrow> accepts P D m"
  by simp

section \<open>The Rust functions, called from Python\<close>

abbreviation flags_ok :: "('r, 'w) env \<Rightarrow> bool \<Rightarrow> int \<Rightarrow> bool" where
  "flags_ok E strict fl \<equiv> 0 \<le> fl \<and> fl < 2 ^ 8 \<and>
     (strict \<longrightarrow> \<not> skips_success (env_flags E) (word_of_int fl))"

lemma ffi_accepts:
  assumes P: "pyo3_laws (env_pyo3 E)"
  shows "accepts (ready E K) (is_i32 fd \<and> is_i32 k \<and> is_u32 perms \<and> flags_ok E True fl \<and> K CODE_OpenAt)
      (ffi_prep_openat E fd path ud k perms fl)"
    "accepts (ready E K) (is_i32 fd \<and> flags_ok E False fl \<and> K CODE_Close) (ffi_prep_close E fd ud fl)"
    "accepts (ready E K) (is_i32 fd \<and> is_u32 n \<and> - (2 ^ 63) \<le> off \<and> off < 2 ^ 63 \<and> flags_ok E True fl \<and>
      K CODE_Read) (ffi_prep_read E fd n off ud fl)"
    "accepts (ready E K) (is_i32 domain \<and> is_i32 kind \<and> is_i32 protocol \<and> flags_ok E False fl \<and>
      K CODE_Socket) (ffi_prep_create_socket E domain kind protocol ud fl)"
    "accepts (ready E K) (is_i32 fd \<and> 0 \<le> port \<and> port < 2 ^ 16 \<and> flags_ok E True fl \<and>
      ipv4_from_str ip \<noteq> None \<and> K CODE_Connect) (ffi_prep_connect_v4 E fd ip port ud fl)"
    "accepts (ready E K) (is_i32 fd \<and> 0 \<le> port \<and> port < 2 ^ 16 \<and> flags_ok E True fl \<and>
      ipv6_from_str ip \<noteq> None \<and> K CODE_Connect) (ffi_prep_connect_v6 E fd ip port ud fl)"
    "accepts (ready E K) (is_i32 fd \<and> is_u32 n \<and> is_i32 flags \<and> flags_ok E True fl \<and> K CODE_Recv)
      (ffi_prep_recv E fd n flags ud fl)"
  unfolding ffi_prep_openat_def ffi_prep_close_def ffi_prep_read_def ffi_prep_create_socket_def
    ffi_prep_connect_v4_def ffi_prep_connect_v6_def ffi_prep_recv_def ffi_defs
    add_owned_path_def add_owned_buffer_def
  by - (rule accepts_cong, (rule accepts_intros)+,
      auto simp: pyo3_accepts [OF P] parse_or_raise_def split: option.splits)+

lemma ffi_accepts_chunk:
  assumes P: "pyo3_laws (env_pyo3 E)" and len: "length (buf_bytes buf) < 2 ^ 63"
    and m: "m = (case n of None \<Rightarrow> int (length (buf_bytes buf)) | Some k \<Rightarrow> k)"
    and k: "k = (case start of None \<Rightarrow> 0 | Some k \<Rightarrow> k)"
  shows "accepts (ready E K) (is_i32 fd \<and> chunk_ok buf n start \<and> - (2 ^ 63) \<le> off \<and> off < 2 ^ 63 \<and>
      flags_ok E True fl \<and> K CODE_Write) (ffi_prep_write E fd buf m k off ud fl)"
    "accepts (ready E K) (is_i32 fd \<and> chunk_ok buf n start \<and> is_i32 flags \<and>
      flags_ok E True fl \<and> K CODE_Send) (ffi_prep_send E fd buf m k flags ud fl)"
  unfolding ffi_prep_write_def ioring_prep_write_def ffi_prep_send_def ioring_prep_send_def
    add_owned_buffer_def chunk_accepts [OF P len m k]
  by - (rule accepts_cong, (rule accepts_intros)+, simp add: pyo3_accepts(1,2,5) [OF P], fast)+

section \<open>From the methods\<close>

fun file_ok :: "acceptable_file \<Rightarrow> ('r, 'w, 'z) py_scheme \<Rightarrow> bool" where
  "file_ok (FdInt fd) s \<longleftrightarrow> is_i32 fd"
| "file_ok (FdObj h) s \<longleftrightarrow> \<not> close_called h s \<and> is_i32 (handle_fd h s)"

lemma decides_numbered:
  assumes "ready E K s" "\<And>ud. accepts (ready E K) C (op ud)"
  shows "decides s C (numbered op s)"
proof -
  let ?u = "user_data_counter (ring s)"
  obtain s1 where run: "get_next_user_data s = (Inr ?u, s1)" by (simp add: get_next_user_data_def)
  have s1: "ready E K s1" "untouched s s1"
    using ready_next [of E K s] untouched_next [of s] assms(1) by (simp_all add: run)
  obtain x t where op: "op ?u s1 = (x, t)" by (metis prod.exhaust)
  have "decides s1 C (x, t)"
    using assms(2) [of ?u, unfolded accepts_def, rule_format, OF s1(1)] by (simp add: op)
  with run op untouched_trans [OF s1(2), of t] show ?thesis
    by (cases x) (auto simp: decides_def numbered_def bindP_def split: if_splits)
qed

lemma decides_numbered_file:
  assumes s: "ready E K s" and op: "\<And>ud fd. accepts (ready E K) (is_i32 fd \<and> C) (g ud fd)"
  shows "decides s (file_ok f s \<and> C) (numbered (\<lambda>ud. bindP (unwrap_file f) (g ud)) s)"
proof (cases "\<exists>h. f = FdObj h \<and> close_called h s")
  case True
  then obtain h where "f = FdObj h" "close_called h s" by blast
  then show ?thesis by (simp add: decides_def numbered_closed_handle del: unwrap_file.simps)
next
  case False
  have eq: "numbered (\<lambda>ud. bindP (unwrap_file f) (g ud)) s = numbered (\<lambda>ud. g ud (file_fd f s)) s"
    using False by (cases f) (simp_all add: numbered_def bindP_def
        unwrap_file_app get_next_user_data_def handle_defs file_fd_def del: unwrap_file.simps)
  have ok: "file_ok f s \<longleftrightarrow> is_i32 (file_fd f s)"
    using False by (cases f) (auto simp: file_fd_def)
  show ?thesis unfolding eq ok by (rule decides_numbered [OF s op])
qed

text \<open>What makes a request acceptable, given the operations \<open>K\<close> the kernel supports.\<close>

fun arguments_ok :: "request \<Rightarrow> ('r, 'w, 'z) py_scheme \<Rightarrow> bool" where
  "arguments_ok (Prep_Openat dir path mode flags perms _) s \<longleftrightarrow> is_i32 (dir_fd dir s) \<and> is_u32 perms"
| "arguments_ok (Prep_Close f _) s \<longleftrightarrow> file_ok f s"
| "arguments_ok (Prep_Read f n off _) s \<longleftrightarrow> file_ok f s \<and> is_u32 n \<and> -1 \<le> off \<and> off < 2 ^ 63"
| "arguments_ok (Prep_Write f buf off n start _) s \<longleftrightarrow>
     file_ok f s \<and> chunk_ok buf n start \<and> -1 \<le> off \<and> off < 2 ^ 63"
| "arguments_ok (Prep_Create_Socket domain kind protocol _ _) s \<longleftrightarrow>
     is_i32 domain \<and> is_i32 kind \<and> is_i32 protocol"
| "arguments_ok (Prep_Connect_V4 f address port _) s \<longleftrightarrow>
     file_ok f s \<and> ipv4_from_str (py_str_v4 address) \<noteq> None \<and> 0 \<le> port \<and> port < 2 ^ 16"
| "arguments_ok (Prep_Connect_V6 f address port _) s \<longleftrightarrow>
     file_ok f s \<and> ipv6_from_str address \<noteq> None \<and> 0 \<le> port \<and> port < 2 ^ 16"
| "arguments_ok (Prep_Recv f n flags _) s \<longleftrightarrow> file_ok f s \<and> is_u32 n \<and> is_i32 flags"
| "arguments_ok (Prep_Send f buf n start flags _) s \<longleftrightarrow>
     file_ok f s \<and> chunk_ok buf n start \<and> is_i32 flags"

definition well_formed :: "('r, 'w) env \<Rightarrow> request \<Rightarrow> ('r, 'w, 'z) py_scheme \<Rightarrow> bool" where
  "well_formed E req s \<longleftrightarrow> probe (ring s) (code_of req) \<and> arguments_ok req s \<and>
     flags_ok E (owns_data req) (sqe_flags_or_0 (flags_of req))"

text \<open>The flags of an open and the kind of a socket stay in range.\<close>

lemma is_i32_drop_bit: "is_i32 n \<longleftrightarrow> drop_bit 31 n = 0 \<or> drop_bit 31 n = -1"
  by (simp add: drop_bit_eq_div) linarith

lemma is_i32_or: "0 \<le> c \<Longrightarrow> c < 2 ^ 31 \<Longrightarrow> is_i32 (n OR c) \<longleftrightarrow> is_i32 n"
  by (simp only: is_i32_drop_bit drop_bit_or) (simp add: drop_bit_eq_div)

lemma socket_kind_range: "is_i32 (if nb then (k OR SOCK_CLOEXEC) OR SOCK_NONBLOCK else k OR SOCK_CLOEXEC) \<longleftrightarrow> is_i32 k"
proof -
  have "is_i32 (n OR SOCK_CLOEXEC) \<longleftrightarrow> is_i32 n" "is_i32 (n OR SOCK_NONBLOCK) \<longleftrightarrow> is_i32 n" for n
    by (rule is_i32_or; simp add: sock_flag_defs)+
  then show ?thesis by (cases nb) simp_all
qed

lemma openat_flags_range: "is_i32 (openat_raw_flags flags OR mode_value mode)"
proof -
  have "\<not> bit (enum_flags_to_int_flags fs) (31 + n)" for fs n
    using flag_bits_range by (fastforce simp: bit_enum_flags)
  then have "\<not> bit (openat_raw_flags flags) (31 + n)" for n
    by (simp add: openat_raw_flags_def split: option.split)
  then have "drop_bit 31 (openat_raw_flags flags) = 0"
    by (intro bit_eqI) (simp add: bit_drop_bit_eq)
  then have "is_i32 (openat_raw_flags flags)" by (simp only: is_i32_drop_bit) simp
  moreover have "0 \<le> mode_value mode" "mode_value mode < 2 ^ 31" using mode_value_range [of mode] by auto
  ultimately show ?thesis using is_i32_or by blast
qed

lemma decides_guard_fail: "\<not> b \<Longrightarrow> decides s False (bindP (guardP b e) f s)"
  by (simp add: decides_def bindP_def)

lemma decides_file:
  assumes "ready E K s" "\<And>ud fd. accepts (ready E K) (is_i32 fd \<and> C) (g ud fd)" "D = (file_ok f s \<and> C)"
  shows "decides s D (numbered (\<lambda>ud. bindP (unwrap_file f) (g ud)) s)"
  using decides_numbered_file [OF assms(1,2)] assms(3) by simp

lemma decides_plain:
  assumes "ready E K s" "\<And>ud. accepts (ready E K) C (op ud)" "D = C"
  shows "decides s D (numbered op s)"
  using decides_numbered [OF assms(1,2)] assms(3) by simp

lemma decides_openat:
  assumes P: "pyo3_laws (env_pyo3 E)" and s: "ready E K s"
  shows "decides s (is_i32 (dir_fd dir s) \<and> is_u32 perms \<and> flags_ok E True (sqe_flags_or_0 fl) \<and> K CODE_OpenAt)
    (prep_openat E dir path mode flags perms fl s)"
proof -
  have "openat_dirfd dir s = (Inr (dir_fd dir s), s)"
    by (cases dir rule: openat_dirfd.cases) (simp_all add: dir_fd_def file_fd_def)
  then have "prep_openat E dir path mode flags perms fl s = numbered (\<lambda>ud. ffi_prep_openat E (dir_fd dir s)
      path ud (openat_raw_flags flags OR mode_value mode) perms (sqe_flags_or_0 fl)) s"
    by (simp add: prep_openat_def numbered_def Let_def bindP_app [of "openat_dirfd dir"])
  moreover have "decides s (is_i32 (dir_fd dir s) \<and> is_u32 perms \<and> flags_ok E True (sqe_flags_or_0 fl) \<and> K CODE_OpenAt)
      (numbered (\<lambda>ud. ffi_prep_openat E (dir_fd dir s)
        path ud (openat_raw_flags flags OR mode_value mode) perms (sqe_flags_or_0 fl)) s)"
    by (rule decides_plain [OF s ffi_accepts(1) [OF P]]) (use openat_flags_range [of flags mode] in auto)
  ultimately show ?thesis by simp
qed

lemma decides_close:
  assumes P: "pyo3_laws (env_pyo3 E)" and s: "ready E K s"
  shows "decides s (file_ok f s \<and> flags_ok E False (sqe_flags_or_0 fl) \<and> K CODE_Close) (prep_close E f fl s)"
proof (cases f)
  case (FdInt i)
  show ?thesis unfolding FdInt prep_close_int
    by (rule decides_numbered_file [OF s ffi_accepts(2) [OF P]])
next
  case (FdObj h)
  have "accepts (ready E K) (is_i32 i \<and> flags_ok E False (sqe_flags_or_0 fl) \<and> K CODE_Close)
      (bindP (ffi_prep_close E i ud (sqe_flags_or_0 fl)) (\<lambda>_. mark_closed h))" for ud i
    using ffi_accepts(2) [OF P, of K i "sqe_flags_or_0 fl" ud]
    by (fastforce simp: accepts_def decides_def bindP_def mark_closed_def split: prod.split sum.split)
  from decides_numbered_file [OF s this] show ?thesis
    unfolding FdObj prep_close_obj bindP_assoc by (simp del: unwrap_file.simps file_ok.simps)
qed

lemma decides_read:
  assumes P: "pyo3_laws (env_pyo3 E)" and s: "ready E K s"
  shows "decides s (file_ok f s \<and> is_u32 n \<and> -1 \<le> off \<and> off < 2 ^ 63 \<and>
      flags_ok E True (sqe_flags_or_0 fl) \<and> K CODE_Read) (prep_read E f n off fl s)"
proof (cases "-1 \<le> off")
  case True
  have "decides s (file_ok f s \<and> is_u32 n \<and> -1 \<le> off \<and> off < 2 ^ 63 \<and>
      flags_ok E True (sqe_flags_or_0 fl) \<and> K CODE_Read)
      (numbered (\<lambda>ud. bindP (unwrap_file f) (\<lambda>i. ffi_prep_read E i n off ud (sqe_flags_or_0 fl))) s)"
    by (rule decides_file [OF s ffi_accepts(3) [OF P]]) (use True in auto)
  with True show ?thesis
    by (simp add: prep_read_def Let_def numbered_after bindP_app [of "guardP _ _"])
qed (simp add: prep_read_def decides_guard_fail)

lemma decides_write:
  assumes P: "pyo3_laws (env_pyo3 E)" and s: "ready E K s" and len: "length (buf_bytes buf) < 2 ^ 63"
  shows "decides s (file_ok f s \<and> chunk_ok buf n start \<and> -1 \<le> off \<and> off < 2 ^ 63 \<and>
      flags_ok E True (sqe_flags_or_0 fl) \<and> K CODE_Write) (prep_write E f buf off n start fl s)"
proof (cases "-1 \<le> off")
  case True
  have "decides s (file_ok f s \<and> chunk_ok buf n start \<and> -1 \<le> off \<and> off < 2 ^ 63 \<and>
      flags_ok E True (sqe_flags_or_0 fl) \<and> K CODE_Write)
      (numbered (\<lambda>ud. bindP (unwrap_file f) (\<lambda>i. ffi_prep_write E i buf
        (case n of None \<Rightarrow> int (length (buf_bytes buf)) | Some k \<Rightarrow> k)
        (case start of None \<Rightarrow> 0 | Some k \<Rightarrow> k) off ud (sqe_flags_or_0 fl))) s)"
    by (rule decides_file [OF s ffi_accepts_chunk(1) [OF P _ refl refl]]) (use len True in auto)
  with True show ?thesis
    by (simp add: prep_write_def Let_def numbered_after bindP_app [of "guardP _ _"])
qed (simp add: prep_write_def decides_guard_fail)

lemma decides_request:
  assumes P: "pyo3_laws (env_pyo3 E)" and s: "ready E K s" and len: "buffer_length req < 2 ^ 63"
  shows "decides s (K (code_of req) \<and> arguments_ok req s \<and>
    flags_ok E (owns_data req) (sqe_flags_or_0 (flags_of req))) (perform E req s)"
proof (cases req)
  case (Prep_Read f n off fl)
  with decides_read [OF P s, of f n off fl] show ?thesis by (simp add: conj_ac)
next
  case (Prep_Write f buf off n start fl)
  with decides_write [OF P s, of buf f n start off fl] len show ?thesis by (simp add: conj_ac)
next
  case (Prep_Openat dir path mode flags perms fl)
  with decides_openat [OF P s, of dir perms fl path mode flags] show ?thesis by (simp add: conj_ac)
next
  case (Prep_Close f fl)
  with decides_close [OF P s, of f fl] show ?thesis by (simp add: conj_ac)
next
  case (Prep_Create_Socket domain kind protocol nb fl)
  show ?thesis
    unfolding Prep_Create_Socket perform.simps prep_create_socket_def Let_def numbered_def [symmetric]
    by (rule decides_plain [OF s ffi_accepts(4) [OF P]], simp only: socket_kind_range, auto)
next
  case (Prep_Connect_V4 f address port fl)
  show ?thesis unfolding Prep_Connect_V4 perform.simps prep_connect_v4_def Let_def numbered_after
    by (rule decides_file [OF s ffi_accepts(5) [OF P]]) auto
next
  case (Prep_Connect_V6 f address port fl)
  show ?thesis unfolding Prep_Connect_V6 perform.simps prep_connect_v6_def Let_def numbered_after
    by (rule decides_file [OF s ffi_accepts(6) [OF P]]) auto
next
  case (Prep_Recv f n flags fl)
  show ?thesis unfolding Prep_Recv perform.simps prep_recv_def Let_def numbered_after
    by (rule decides_file [OF s ffi_accepts(7) [OF P]]) auto
next
  case (Prep_Send f buf n start flags fl)
  show ?thesis unfolding Prep_Send perform.simps prep_send_def Let_def numbered_after
    by (rule decides_file [OF s ffi_accepts_chunk(2) [OF P _ refl refl]]) (use len Prep_Send in auto)
qed

section \<open>Property\<close>

text \<open>C5: a request is accepted exactly when it is well formed. On an open ring whose queue has room, or
  can be given some by the automatic submit, a method returns the next \<open>user_data\<close> value if its
  numbers are in the ranges of the Rust types, its chunk is inside its \<open>bytes\<close>, its address parses, its
  flags are allowed, its file is open and the kernel has the operation; there is no other way for
  it to fail. If any of these is missing it raises, and the submission queue, the table of owned
  data and the memory are as before.\<close>

theorem accepted_iff_well_formed:
  assumes P: "pyo3_laws (env_pyo3 E)" and room: "takes_entry E s"
    and len: "buffer_length req < 2 ^ 63" and mem: "\<forall>b \<in> dom (heap s). b < brk s"
  shows "if well_formed E req s then fst (perform E req s) = Inr (user_data_counter (ring s))
    else isl (fst (perform E req s)) \<and>
      (let t = snd (perform E req s) in the_io_uring (ring t) = the_io_uring (ring s) \<and>
         owned_data (ring t) = owned_data (ring s) \<and> heap t = heap s)"
proof -
  obtain x t where run: "perform E req s = (x, t)" by (metis prod.exhaust)
  have "decides s (well_formed E req s) (perform E req s)"
    unfolding well_formed_def using room by (intro decides_request P len) (simp add: ready_def)
  then show ?thesis
    using mem api.meth_value [of E req s _ t] run
    by (cases x) (auto simp: decides_def untouched_def fresh_heap_def)
qed

text \<open>A queue of one entry that is full.\<close>

definition full_state :: "(sim, int list) py" where
  "full_state = sample_state\<lparr>ring := (ring sample_state)\<lparr>the_io_uring := Some
     \<lparr>sim_cap = 1, sim_sq = [\<lparr>op_of = Close 3, sqe_flag_bits = 0, sqe_user_data = 9\<rparr>], sim_cq = []\<rparr>\<rparr>\<rparr>"

theorem accepted_iff_well_formed_witness:
  "fst (perform sample_env (Prep_Write (FdObj 0) (Bytes [1, 2, 3]) 10 (Some 2) (Some 1) None) full_state) = Inr 0 \<and>
   isl (fst (perform sample_env (Prep_Write (FdObj 0) (Bytes [1, 2, 3]) 10 (Some 3) (Some 1) None) full_state))"
proof -
  have room: "takes_entry sample_env full_state"
    by (simp add: takes_entry_def full_state_def sample_state_def sample_env_def sim_uring_def sim_submit_def)
  have mem: "\<forall>b \<in> dom (heap full_state). b < brk full_state"
    by (simp add: full_state_def sample_state_def)
  have "well_formed sample_env (Prep_Write (FdObj 0) (Bytes [1, 2, 3]) 10 (Some 2) (Some 1) None) full_state"
    by code_simp
  moreover have "\<not> well_formed sample_env (Prep_Write (FdObj 0) (Bytes [1, 2, 3]) 10 (Some 3) (Some 1) None) full_state"
    by code_simp
  moreover have "user_data_counter (ring full_state) = 0"
    by (simp add: full_state_def sample_state_def)
  ultimately show ?thesis
    using accepted_iff_well_formed [OF sample_env_laws(2) room _ mem,
        of "Prep_Write (FdObj 0) (Bytes [1, 2, 3]) 10 (Some 2) (Some 1) None"]
      accepted_iff_well_formed [OF sample_env_laws(2) room _ mem,
        of "Prep_Write (FdObj 0) (Bytes [1, 2, 3]) 10 (Some 3) (Some 1) None"]
    by (simp only: if_True if_False buffer_length.simps buf_bytes.simps) simp
qed

end
